theory Spec2Isabelle
  imports Main "HOL-Library.AList" "HOL-Library.Multiset"
begin

section \<open>JavaScript values, objects and errors\<close>

text \<open>
  The values the store and its callbacks exchange.  Objects live in a heap and a value
  refers to one by its address, so that \<open>===\<close> on objects is reference identity.
  Function values are either user functions (named by an index into a table of bodies)
  or one of the two closures that \<open>createStore\<close> itself creates: the \<open>unsubscribe\<close>
  function returned by \<open>subscribe\<close> (it captures the subscription it belongs to) and the
  \<open>observeState\<close> function of the observable (it captures the observer).
  Numbers are integers; floating point is outside the embedding.
\<close>

datatype fn =
    User nat
  | Unsubscribe nat
  | ObserveState nat jsval
and jsval =
    Undefined
  | Null
  | Boolean bool
  | Number int
  | String string
  | Function fn
  | Obj nat

text \<open>
  What a \<open>throw\<close> throws: an \<open>Error\<close> object of some class carrying its message,
  or any other value (\<open>throw null\<close>, \<open>throw 0\<close>).
\<close>

datatype error = Error string | TypeError string | Thrown jsval

datatype objkind = PlainObject | ArrayObject | InstanceObject

record obj =
  kind :: objkind
  properties :: "(string \<times> jsval) list"

type_synonym heap = "obj list"

definition alloc :: "heap \<Rightarrow> obj \<Rightarrow> jsval \<times> heap" where
  "alloc h ob = (Obj (length h), h @ [ob])"

text \<open>\<open>typeof v\<close>; note that \<open>typeof null\<close> is \<open>'object'\<close>.\<close>

fun typeof :: "jsval \<Rightarrow> string" where
  "typeof Undefined = ''undefined''"
| "typeof Null = ''object''"
| "typeof (Boolean _) = ''boolean''"
| "typeof (Number _) = ''number''"
| "typeof (String _) = ''string''"
| "typeof (Function _) = ''function''"
| "typeof (Obj _) = ''object''"

text \<open>
  lodash's \<open>isPlainObject\<close>: an object created by the \<open>Object\<close> constructor or with a
  null prototype.  Arrays, class instances and every primitive are not plain.
\<close>

fun isPlainObject :: "heap \<Rightarrow> jsval \<Rightarrow> bool" where
  "isPlainObject h (Obj p) = (p < length h \<and> kind (h ! p) = PlainObject)"
| "isPlainObject h _ = False"

text \<open>
  Property read \<open>v[key]\<close>.  Reading a property of \<open>null\<close> or \<open>undefined\<close> is a
  \<open>TypeError\<close>; an absent property reads as \<open>undefined\<close>.  Only own properties are
  modelled (keys are assumed not to name members of the built-in prototypes).
\<close>

fun get_prop :: "heap \<Rightarrow> jsval \<Rightarrow> string \<Rightarrow> error + jsval" where
  "get_prop h Undefined key = Inl (TypeError (''Cannot read property of undefined''))"
| "get_prop h Null key = Inl (TypeError (''Cannot read property of null''))"
| "get_prop h (Obj p) key =
     (if p < length h
      then (case map_of (properties (h ! p)) key of None \<Rightarrow> Inr Undefined | Some v \<Rightarrow> Inr v)
      else Inr Undefined)"
| "get_prop h _ key = Inr Undefined"

text \<open>Truthiness of a value, as \<open>if (v)\<close> tests it.\<close>

fun truthy :: "jsval \<Rightarrow> bool" where
  "truthy Undefined = False"
| "truthy Null = False"
| "truthy (Boolean b) = b"
| "truthy (Number n) = (n \<noteq> 0)"
| "truthy (String s) = (s \<noteq> [])"
| "truthy (Function _) = True"
| "truthy (Obj _) = True"

text \<open>
  Truthiness of a caught value: an \<open>Error\<close> object is an object, hence truthy; any
  other thrown value is tested as itself.  A variable that holds no caught value
  (\<open>undefined\<close> or \<open>null\<close>) is falsy.
\<close>

fun thrown_truthy :: "error \<Rightarrow> bool" where
  "thrown_truthy (Error m) = True"
| "thrown_truthy (TypeError m) = True"
| "thrown_truthy (Thrown v) = truthy v"

definition caught_truthy :: "error option \<Rightarrow> bool" where
  "caught_truthy c = (case c of None \<Rightarrow> False | Some e \<Rightarrow> thrown_truthy e)"


section \<open>The store (src/redux/createStore.js)\<close>

subsection \<open>The closure variables of createStore\<close>

text \<open>
  \<open>createStore\<close> keeps its state in local variables that its inner functions close
  over.  Two of them, \<open>currentListeners\<close> and \<open>nextListeners\<close>, hold references to
  arrays and may alias; the arrays therefore live in a store of their own (\<open>arrays\<close>)
  and the two variables hold addresses.  \<open>subscriptions\<close> holds, for every call of
  \<open>subscribe\<close> so far, the listener and the \<open>isSubscribed\<close> flag captured by the
  \<open>unsubscribe\<close> closure that call returned.  \<open>heap\<close> is the object heap.
\<close>

record store =
  heap :: heap
  currentReducer :: jsval
  currentState :: jsval
  arrays :: "jsval list list"
  currentListeners :: nat
  nextListeners :: nat
  isDispatching :: bool
  subscriptions :: "(jsval \<times> bool) list"

text \<open>The array at an address (an address that was never allocated holds no array).\<close>

definition array_at :: "store \<Rightarrow> nat \<Rightarrow> jsval list" where
  "array_at s a = (if a < length (arrays s) then arrays s ! a else [])"

definition ActionTypes_INIT :: string where
  "ActionTypes_INIT = ''@@redux/INIT''"

definition init_action :: obj where
  "init_action = \<lparr>kind = PlainObject, properties = [(''type'', String ActionTypes_INIT)]\<rparr>"

definition msg_plain :: string where
  "msg_plain = ''Actions must be plain objects. Use custom middleware for async actions.''"

definition msg_type :: string where
  "msg_type = ''Actions may not have an undefined '' @ [CHR 0x22] @ ''type'' @ [CHR 0x22] @
     '' property. Have you misspelled a constant?''"

definition msg_reducer_dispatch :: string where
  "msg_reducer_dispatch = ''Reducers may not dispatch actions.''"

subsection \<open>Listener registration\<close>

text \<open>
  \<open>ensureCanMutateNextListeners\<close>: when both variables refer to the same array,
  \<open>nextListeners\<close> becomes a fresh copy (\<open>slice()\<close>).
\<close>

definition ensureCanMutateNextListeners :: "store \<Rightarrow> store" where
  "ensureCanMutateNextListeners s =
     (if nextListeners s = currentListeners s
      then s\<lparr>arrays := arrays s @ [array_at s (currentListeners s)],
             nextListeners := length (arrays s)\<rparr>
      else s)"

text \<open>
  \<open>subscribe(listener)\<close> pushes onto the \<open>nextListeners\<close> array and returns the
  \<open>unsubscribe\<close> closure of the new subscription.
\<close>

definition subscribe :: "jsval \<Rightarrow> store \<Rightarrow> (error + jsval) \<times> store" where
  "subscribe listener s =
     (if typeof listener \<noteq> ''function''
      then (Inl (Error ''Expected listener to be a function.''), s)
      else
        let s1 = ensureCanMutateNextListeners s;
            s2 = s1\<lparr>arrays := (arrays s1)[nextListeners s1 :=
                        array_at s1 (nextListeners s1) @ [listener]],
                    subscriptions := subscriptions s1 @ [(listener, True)]\<rparr>
        in (Inr (Function (Unsubscribe (length (subscriptions s)))), s2))"

text \<open>\<open>Array.prototype.indexOf\<close>: the first index of the element, or \<open>-1\<close>.\<close>

fun indexOf :: "jsval list \<Rightarrow> jsval \<Rightarrow> int" where
  "indexOf [] x = -1"
| "indexOf (y # ys) x =
     (if y = x then 0 else (let i = indexOf ys x in if i < 0 then -1 else i + 1))"

text \<open>
  \<open>xs.splice(start, 1)\<close>: a negative \<open>start\<close> counts from the end of the array, so
  \<open>splice(-1, 1)\<close> removes the last element.
\<close>

definition splice1 :: "jsval list \<Rightarrow> int \<Rightarrow> jsval list" where
  "splice1 xs start =
     (let len = int (length xs);
          from = (if start < 0 then max (len + start) 0 else min start len)
      in take (nat from) xs @ drop (nat from + 1) xs)"

text \<open>
  The \<open>unsubscribe\<close> closure of subscription \<open>sub\<close>.  A second call returns at once.
  (An index that no \<open>subscribe\<close> call created denotes no closure; calling it does
  nothing.)
\<close>

definition unsubscribe :: "nat \<Rightarrow> store \<Rightarrow> (error + jsval) \<times> store" where
  "unsubscribe sub s =
     (if sub < length (subscriptions s)
      then
        (case subscriptions s ! sub of (listener, isSubscribed) \<Rightarrow>
           if \<not> isSubscribed then (Inr Undefined, s)
           else
             let s1 = s\<lparr>subscriptions := (subscriptions s)[sub := (listener, False)]\<rparr>;
                 s2 = ensureCanMutateNextListeners s1;
                 index = indexOf (array_at s2 (nextListeners s2)) listener
             in (Inr Undefined,
                 s2\<lparr>arrays := (arrays s2)[nextListeners s2 :=
                        splice1 (array_at s2 (nextListeners s2)) index]\<rparr>))
      else (Inr Undefined, s))"

subsection \<open>Callbacks\<close>

text \<open>
  Reducers, listeners and observers are user code that may call back into the store.
  The body of a user function is a tree of the store calls it makes: each call hands
  its outcome (a value, or the exception it threw, which the body may catch or rethrow)
  to the rest of the body.  \<open>Local\<close> is a piece of user code that only works on the heap.
\<close>

datatype call =
    GetState
  | Dispatch jsval
  | Subscribe jsval
  | ReplaceReducer jsval
  | ObservableSubscribe jsval
  | Call jsval "jsval list"

datatype prog =
    Return jsval
  | Throw error
  | Local "heap \<Rightarrow> jsval \<times> heap" "jsval \<Rightarrow> prog"
  | Do call "error + jsval \<Rightarrow> prog"

type_synonym funs = "nat \<Rightarrow> jsval list \<Rightarrow> prog"

text \<open>
  The outcome of a computation: the exception thrown or the value returned, and the
  store afterwards.  \<open>None\<close> means the computation did not finish within the given
  number of steps (a listener may dispatch forever).
\<close>

type_synonym outcome = "(error + jsval) option \<times> store"

subsection \<open>dispatch, replaceReducer and the observable\<close>

text \<open>
  The functions of the store call user code, and user code calls the store: they are
  defined together, as one function \<open>exec\<close> over the kind of computation to perform.
  \<open>RunT\<close> executes the body of a user function, \<open>CallFnT\<close> calls a function value,
  \<open>StoreCallT\<close> is one call of the store's interface; \<open>DispatchT\<close>,
  \<open>ReplaceReducerT\<close>, \<open>ObservableSubscribeT\<close> (the observable's \<open>subscribe\<close>) and
  \<open>ObserveStateT\<close> are the functions of the source, and \<open>ListenersLoopT listeners i\<close>
  is the \<open>for\<close> loop of \<open>dispatch\<close> over the array \<open>listeners\<close> from index \<open>i\<close>
  (the loop reads \<open>listeners.length\<close> and \<open>listeners[i]\<close> anew in every iteration).
  The first argument bounds the number of nested steps.
\<close>

datatype task =
    RunT prog
  | CallFnT jsval "jsval list"
  | StoreCallT call
  | DispatchT jsval
  | ListenersLoopT nat nat
  | ReplaceReducerT jsval
  | ObserveStateT jsval
  | ObservableSubscribeT jsval

fun exec :: "nat \<Rightarrow> funs \<Rightarrow> task \<Rightarrow> store \<Rightarrow> outcome" where
  "exec 0 fs t s = (None, s)"
| "exec (Suc n) fs t s =
   (case t of
     RunT p \<Rightarrow>
     (case p of
        Return v \<Rightarrow> (Some (Inr v), s)
      | Throw e \<Rightarrow> (Some (Inl e), s)
      | Local f k \<Rightarrow> (case f (heap s) of (v, h') \<Rightarrow> exec n fs (RunT (k v)) (s\<lparr>heap := h'\<rparr>))
      | Do c k \<Rightarrow>
          (case exec n fs (StoreCallT c) s of
             (None, s') \<Rightarrow> (None, s')
           | (Some r, s') \<Rightarrow> exec n fs (RunT (k r)) s'))
   | CallFnT f args \<Rightarrow>
     (case f of
        Function (User i) \<Rightarrow> exec n fs (RunT (fs i args)) s
      | Function (Unsubscribe sub) \<Rightarrow> (case unsubscribe sub s of (r, s') \<Rightarrow> (Some r, s'))
      | Function (ObserveState c observer) \<Rightarrow> exec n fs (ObserveStateT observer) s
      | _ \<Rightarrow> (Some (Inl (TypeError ''not a function'')), s))
   | StoreCallT c \<Rightarrow>
     (case c of
        GetState \<Rightarrow> (Some (Inr (currentState s)), s)
      | Dispatch action \<Rightarrow> exec n fs (DispatchT action) s
      | Subscribe listener \<Rightarrow> (case subscribe listener s of (r, s') \<Rightarrow> (Some r, s'))
      | ReplaceReducer nextReducer \<Rightarrow> exec n fs (ReplaceReducerT nextReducer) s
      | ObservableSubscribe observer \<Rightarrow> exec n fs (ObservableSubscribeT observer) s
      | Call f args \<Rightarrow> exec n fs (CallFnT f args) s)
   | DispatchT action \<Rightarrow>
     (if \<not> isPlainObject (heap s) action then (Some (Inl (Error msg_plain)), s)
      else
        (case get_prop (heap s) action ''type'' of
           Inl e \<Rightarrow> (Some (Inl e), s)
         | Inr ty \<Rightarrow>
             if typeof ty = ''undefined'' then (Some (Inl (Error msg_type)), s)
             else if isDispatching s then (Some (Inl (Error msg_reducer_dispatch)), s)
             else
               (case exec n fs (CallFnT (currentReducer s) [currentState s, action])
                       (s\<lparr>isDispatching := True\<rparr>) of
                  (None, s1) \<Rightarrow> (None, s1)
                | (Some (Inl e), s1) \<Rightarrow> (Some (Inl e), s1\<lparr>isDispatching := False\<rparr>)
                | (Some (Inr v), s1) \<Rightarrow>
                    (case exec n fs (ListenersLoopT (nextListeners s1) 0)
                            (s1\<lparr>currentState := v, isDispatching := False,
                                currentListeners := nextListeners s1\<rparr>) of
                       (Some (Inr _), s4) \<Rightarrow> (Some (Inr action), s4)
                     | (r, s4) \<Rightarrow> (r, s4)))))
   | ListenersLoopT listeners i \<Rightarrow>
     (if i < length (array_at s listeners)
      then
        (case exec n fs (CallFnT (array_at s listeners ! i) []) s of
           (Some (Inr _), s') \<Rightarrow> exec n fs (ListenersLoopT listeners (i + 1)) s'
         | (r, s') \<Rightarrow> (r, s'))
      else (Some (Inr Undefined), s))
   | ReplaceReducerT nextReducer \<Rightarrow>
     (if typeof nextReducer \<noteq> ''function''
      then (Some (Inl (Error ''Expected the nextReducer to be a function.'')), s)
      else
        (case alloc (heap s) init_action of (action, h') \<Rightarrow>
           (case exec n fs (DispatchT action) (s\<lparr>currentReducer := nextReducer, heap := h'\<rparr>) of
              (Some (Inr _), s') \<Rightarrow> (Some (Inr Undefined), s')
            | (r, s') \<Rightarrow> (r, s'))))
   | ObserveStateT observer \<Rightarrow>
     (case get_prop (heap s) observer ''next'' of
        Inl e \<Rightarrow> (Some (Inl e), s)
      | Inr nxt \<Rightarrow>
          if truthy nxt
          then
            (case exec n fs (CallFnT nxt [currentState s]) s of
               (Some (Inr _), s') \<Rightarrow> (Some (Inr Undefined), s')
             | (r, s') \<Rightarrow> (r, s'))
          else (Some (Inr Undefined), s))
   | ObservableSubscribeT observer \<Rightarrow>
     (if typeof observer \<noteq> ''object''
      then (Some (Inl (TypeError ''Expected the observer to be an object.'')), s)
      else
        (case exec n fs (ObserveStateT observer) s of
           (Some (Inr _), s1) \<Rightarrow>
             (case subscribe (Function (ObserveState (length (subscriptions s1)) observer)) s1 of
                (Inl e, s2) \<Rightarrow> (Some (Inl e), s2)
              | (Inr unsub, s2) \<Rightarrow>
                  (case alloc (heap s2) \<lparr>kind = PlainObject, properties = [(''unsubscribe'', unsub)]\<rparr> of
                     (subscription, h') \<Rightarrow> (Some (Inr subscription), s2\<lparr>heap := h'\<rparr>)))
         | (r, s1) \<Rightarrow> (r, s1))))"

text \<open>The functions under their names in the source.\<close>

definition run :: "nat \<Rightarrow> funs \<Rightarrow> prog \<Rightarrow> store \<Rightarrow> outcome" where
  "run n fs p s = exec n fs (RunT p) s"

definition call_fn :: "nat \<Rightarrow> funs \<Rightarrow> jsval \<Rightarrow> jsval list \<Rightarrow> store \<Rightarrow> outcome" where
  "call_fn n fs f args s = exec n fs (CallFnT f args) s"

definition store_call :: "nat \<Rightarrow> funs \<Rightarrow> call \<Rightarrow> store \<Rightarrow> outcome" where
  "store_call n fs c s = exec n fs (StoreCallT c) s"

definition dispatch :: "nat \<Rightarrow> funs \<Rightarrow> jsval \<Rightarrow> store \<Rightarrow> outcome" where
  "dispatch n fs action s = exec n fs (DispatchT action) s"

definition listeners_loop :: "nat \<Rightarrow> funs \<Rightarrow> nat \<Rightarrow> nat \<Rightarrow> store \<Rightarrow> outcome" where
  "listeners_loop n fs listeners i s = exec n fs (ListenersLoopT listeners i) s"

definition replaceReducer :: "nat \<Rightarrow> funs \<Rightarrow> jsval \<Rightarrow> store \<Rightarrow> outcome" where
  "replaceReducer n fs nextReducer s = exec n fs (ReplaceReducerT nextReducer) s"

definition observeState :: "nat \<Rightarrow> funs \<Rightarrow> jsval \<Rightarrow> store \<Rightarrow> outcome" where
  "observeState n fs observer s = exec n fs (ObserveStateT observer) s"

definition observable_subscribe :: "nat \<Rightarrow> funs \<Rightarrow> jsval \<Rightarrow> store \<Rightarrow> outcome" where
  "observable_subscribe n fs observer s = exec n fs (ObservableSubscribeT observer) s"

text \<open>\<open>getState()\<close> returns the variable \<open>currentState\<close>.\<close>

definition getState :: "store \<Rightarrow> jsval" where
  "getState s = currentState s"


subsection \<open>createStore\<close>

text \<open>
  \<open>createStore(reducer, preloadedState, enhancer)\<close>.  With an enhancer the call is
  handed over to \<open>enhancer(createStore)(reducer, preloadedState)\<close>, which is user code
  working on a store of its own; the embedding records the delegation and does not
  follow it.  Otherwise the variables are initialised and the private action is
  dispatched once.
\<close>

datatype created =
    Threw error
  | Delegated jsval jsval jsval
  | Created store
  | Unfinished

definition createStore :: "nat \<Rightarrow> funs \<Rightarrow> heap \<Rightarrow> jsval \<Rightarrow> jsval \<Rightarrow> jsval \<Rightarrow> created" where
  "createStore n fs h reducer preloadedState0 enhancer0 =
     (let swap = (typeof preloadedState0 = ''function'' \<and> typeof enhancer0 = ''undefined'');
          enhancer = (if swap then preloadedState0 else enhancer0);
          preloadedState = (if swap then Undefined else preloadedState0)
      in
        if typeof enhancer \<noteq> ''undefined'' then
          (if typeof enhancer \<noteq> ''function''
           then Threw (Error ''Expected the enhancer to be a function.'')
           else Delegated enhancer reducer preloadedState)
        else if typeof reducer \<noteq> ''function''
        then Threw (Error ''Expected the reducer to be a function.'')
        else
          (case alloc h init_action of (action, h') \<Rightarrow>
             (case dispatch n fs action
                     \<lparr>heap = h', currentReducer = reducer, currentState = preloadedState,
                      arrays = [[]], currentListeners = 0, nextListeners = 0,
                      isDispatching = False, subscriptions = []\<rparr> of
                (None, _) \<Rightarrow> Unfinished
              | (Some (Inl e), _) \<Rightarrow> Threw e
              | (Some (Inr _), s) \<Rightarrow> Created s)))"

subsection \<open>Notions used to state the properties of the store\<close>

text \<open>
  User code is \<^emph>\<open>quiet\<close> when it never calls \<open>dispatch\<close> or \<open>replaceReducer\<close>.
\<close>

definition quiet_call :: "call \<Rightarrow> bool" where
  "quiet_call c = (case c of Dispatch _ \<Rightarrow> False | ReplaceReducer _ \<Rightarrow> False | _ \<Rightarrow> True)"

primrec quiet :: "prog \<Rightarrow> bool" where
  "quiet (Return v) = True"
| "quiet (Throw e) = True"
| "quiet (Local f k) = (\<forall>v. quiet (k v))"
| "quiet (Do c k) = (quiet_call c \<and> (\<forall>r. quiet (k r)))"

definition quiet_task :: "task \<Rightarrow> bool" where
  "quiet_task t = (case t of RunT p \<Rightarrow> quiet p | StoreCallT c \<Rightarrow> quiet_call c
     | DispatchT _ \<Rightarrow> False | ReplaceReducerT _ \<Rightarrow> False | _ \<Rightarrow> True)"

text \<open>Both listener variables hold addresses of allocated arrays.\<close>

definition valid_arrays :: "store \<Rightarrow> bool" where
  "valid_arrays s = (currentListeners s < length (arrays s) \<and> nextListeners s < length (arrays s))"

text \<open>
  The array at address \<open>a\<close> is safe from mutation: whenever \<open>nextListeners\<close> refers
  to it, so does \<open>currentListeners\<close> (and \<open>ensureCanMutateNextListeners\<close> will copy
  it before the next \<open>push\<close> or \<open>splice\<close>).
\<close>

definition snapshot_ok :: "nat \<Rightarrow> store \<Rightarrow> bool" where
  "snapshot_ok a s = (valid_arrays s \<and> a < length (arrays s) \<and>
     (nextListeners s = a \<longrightarrow> currentListeners s = a))"

text \<open>
  The \<open>nextListeners\<close> array holds exactly the listeners of the subscriptions that
  have not been cancelled, as often as they are subscribed.
\<close>

definition active_listeners :: "store \<Rightarrow> jsval multiset" where
  "active_listeners s = mset (map fst (filter snd (subscriptions s)))"

definition listeners_consistent :: "store \<Rightarrow> bool" where
  "listeners_consistent s =
     (valid_arrays s \<and> mset (array_at s (nextListeners s)) = active_listeners s)"

text \<open>
  What the specification says the notification phase does: every listener of a fixed
  list (the snapshot) is invoked once, in order; an exception ends the phase.
\<close>

fun invoke_all :: "nat \<Rightarrow> funs \<Rightarrow> jsval list \<Rightarrow> store \<Rightarrow> outcome" where
  "invoke_all 0 fs ls s = (None, s)"
| "invoke_all (Suc n) fs [] s = (Some (Inr Undefined), s)"
| "invoke_all (Suc n) fs (l # ls) s =
     (case call_fn n fs l [] s of
        (Some (Inr _), s') \<Rightarrow> invoke_all n fs ls s'
      | (r, s') \<Rightarrow> (r, s'))"


section \<open>compose (src/redux/compose.js)\<close>

text \<open>
  A function receives its argument list and either throws or returns a value.
  \<open>compose\<close> returns \<open>arg => arg\<close> for no function, the function itself for one, and
  otherwise \<open>funcs.reduce((a, b) => (...args) => a(b(...args)))\<close>: \<open>reduce\<close> without an
  initial value starts from the first element and folds the rest from the left.
\<close>

type_synonym jsfun = "jsval list \<Rightarrow> error + jsval"

definition identity_fn :: jsfun where
  "identity_fn args = (case args of [] \<Rightarrow> Inr Undefined | arg # _ \<Rightarrow> Inr arg)"

definition compose2 :: "jsfun \<Rightarrow> jsfun \<Rightarrow> jsfun" where
  "compose2 a b = (\<lambda>args. case b args of Inl e \<Rightarrow> Inl e | Inr v \<Rightarrow> a [v])"

fun compose :: "jsfun list \<Rightarrow> jsfun" where
  "compose [] = identity_fn"
| "compose [f] = f"
| "compose (f # g # fs) = foldl compose2 f (g # fs)"


section \<open>combineReducers (src/unnamed/part_004)\<close>

text \<open>
  A sub-reducer is a function of the previous slice and the action that works on the
  heap (it may allocate the objects it returns) and either throws or returns a value.
  The argument of \<open>combineReducers\<close> is an object, given by its own properties in the
  order of \<open>Object.keys\<close> (each key once), or a value without properties (\<open>null\<close>,
  \<open>undefined\<close>).  A property holds a function or some other value.
\<close>

type_synonym reducer = "jsval \<Rightarrow> jsval \<Rightarrow> heap \<Rightarrow> (error + jsval) \<times> heap"

datatype rvalue = Reducer reducer | Other jsval

datatype reducers_arg = NoObject | Reducers "(string \<times> rvalue) list"

definition dq :: string where
  "dq = [CHR 0x22]"

text \<open>Assignment \<open>ob[key] = v\<close> to a property of an object.\<close>

definition set_prop :: "heap \<Rightarrow> jsval \<Rightarrow> string \<Rightarrow> jsval \<Rightarrow> heap" where
  "set_prop h ob key v =
     (case ob of
        Obj p \<Rightarrow> if p < length h
                 then h[p := (h ! p)\<lparr>properties := AList.update key v (properties (h ! p))\<rparr>]
                 else h
      | _ \<Rightarrow> h)"

definition empty_object :: obj where
  "empty_object = \<lparr>kind = PlainObject, properties = []\<rparr>"

text \<open>
  \<open>value.toString()\<close> for the values an action type may be: exact for strings,
  booleans and integers; an object prints as \<open>[object Object]\<close> and the source text of a
  function is not modelled.
\<close>

fun digit_string :: "nat \<Rightarrow> string" where
  "digit_string n =
     (if n < 10 then [char_of (48 + n)] else digit_string (n div 10) @ [char_of (48 + n mod 10)])"

fun toString :: "jsval \<Rightarrow> string" where
  "toString Undefined = ''undefined''"
| "toString Null = ''null''"
| "toString (Boolean b) = (if b then ''true'' else ''false'')"
| "toString (Number n) = (if n < 0 then ''-'' @ digit_string (nat (- n)) else digit_string (nat n))"
| "toString (String s) = s"
| "toString (Function f) = ''function''"
| "toString (Obj p) = ''[object Object]''"

definition getUndefinedStateErrorMessage :: "heap \<Rightarrow> string \<Rightarrow> jsval \<Rightarrow> string" where
  "getUndefinedStateErrorMessage h key action =
     (let actionType = (if truthy action
                         then (case get_prop h action ''type'' of Inl e \<Rightarrow> Undefined | Inr ty \<Rightarrow> ty)
                         else action);
          actionName = (if truthy actionType then dq @ toString actionType @ dq else ''an action'')
      in ''Given action '' @ actionName @ '', reducer '' @ dq @ key @ dq @
         '' returned undefined. To ignore an action, you must explicitly return the previous state. '' @
         ''If you want this reducer to hold no value, you can return null instead of undefined.'')"

definition msg_initialization :: "string \<Rightarrow> string" where
  "msg_initialization key =
     ''Reducer '' @ dq @ key @ dq @ '' returned undefined during initialization. '' @
     ''If the state passed to the reducer is undefined, you must explicitly return the initial state. '' @
     ''The initial state may not be undefined. If you don't want to set a value for this reducer, '' @
     ''you can use null instead of undefined.''"

definition msg_probe :: "string \<Rightarrow> string" where
  "msg_probe key =
     ''Reducer '' @ dq @ key @ dq @ '' returned undefined when probed with a random type. '' @
     ''Don't try to handle '' @ ActionTypes_INIT @ '' or other actions in '' @ dq @ ''redux/*'' @ dq @
     '' namespace. They are considered private. Instead, you must return the '' @
     ''current state for any unknown actions, unless it is undefined, '' @
     ''in which case you must return the initial state, regardless of the '' @
     ''action type. The initial state may not be undefined, but can be null.''"

definition probe_type :: "string \<Rightarrow> string" where
  "probe_type suffix = ''@@redux/PROBE_UNKNOWN_ACTION_'' @ suffix"

definition probe_action :: "string \<Rightarrow> obj" where
  "probe_action suffix = \<lparr>kind = PlainObject, properties = [(''type'', String (probe_type suffix))]\<rparr>"

text \<open>
  \<open>assertReducerShape\<close> probes every reducer with the private action and with an
  action of a random type; \<open>rand i\<close> is the random suffix drawn for the \<open>i\<close>-th key.
  The result is the exception thrown, if any (\<open>forEach\<close> stops there).
\<close>

fun assertReducerShape ::
  "(string \<times> reducer) list \<Rightarrow> (nat \<Rightarrow> string) \<Rightarrow> nat \<Rightarrow> heap \<Rightarrow> error option \<times> heap" where
  "assertReducerShape [] rand i h = (None, h)"
| "assertReducerShape ((key, reducer) # rest) rand i h =
     (case alloc h init_action of (init, h1) \<Rightarrow>
        (case reducer Undefined init h1 of
           (Inl e, h2) \<Rightarrow> (Some e, h2)
         | (Inr initialState, h2) \<Rightarrow>
             if typeof initialState = ''undefined''
             then (Some (Error (msg_initialization key)), h2)
             else
               (case alloc h2 (probe_action (rand i)) of (probe, h3) \<Rightarrow>
                  (case reducer Undefined probe h3 of
                     (Inl e, h4) \<Rightarrow> (Some e, h4)
                   | (Inr v, h4) \<Rightarrow>
                       if typeof v = ''undefined''
                       then (Some (Error (msg_probe key)), h4)
                       else assertReducerShape rest rand (i + 1) h4))))"

text \<open>
  The closure \<open>combination\<close> that \<open>combineReducers\<close> returns captures the cleaned
  reducer map and the exception of the shape assertion, if there was one.
\<close>

record combination_closure =
  finalReducers :: "(string \<times> reducer) list"
  shapeAssertionError :: "error option"

text \<open>
  The first loop of \<open>combineReducers\<close> keeps the properties that are functions.
  \<open>Object.keys\<close> of a value that is no object throws; the shape assertion runs
  inside \<open>try\<close>, and what it throws is captured.
\<close>

definition cleaned :: "(string \<times> rvalue) list \<Rightarrow> (string \<times> reducer) list" where
  "cleaned rs =
     List.map_filter (\<lambda>(key, v). case v of Reducer r \<Rightarrow> Some (key, r) | Other _ \<Rightarrow> None) rs"

definition combineReducers ::
  "reducers_arg \<Rightarrow> (nat \<Rightarrow> string) \<Rightarrow> heap \<Rightarrow> (error + combination_closure) \<times> heap" where
  "combineReducers reducers rand h =
     (case reducers of
        NoObject \<Rightarrow> (Inl (TypeError ''Cannot convert undefined or null to object''), h)
      | Reducers rs \<Rightarrow>
          (let final = cleaned rs
           in case assertReducerShape final rand 0 h of
                (e, h') \<Rightarrow> (Inr \<lparr>finalReducers = final, shapeAssertionError = e\<rparr>, h')))"

text \<open>
  The loop of \<open>combination\<close> over the reducer keys; it returns \<open>hasChanged\<close>, or the
  exception that ended it.  The development-mode warning about unexpected keys only
  writes to the console and is not part of the embedding.
\<close>

fun combination_loop ::
  "(string \<times> reducer) list \<Rightarrow> jsval \<Rightarrow> jsval \<Rightarrow> jsval \<Rightarrow> bool \<Rightarrow> heap \<Rightarrow> (error + bool) \<times> heap" where
  "combination_loop [] state action nextState hasChanged h = (Inr hasChanged, h)"
| "combination_loop ((key, reducer) # rest) state action nextState hasChanged h =
     (case get_prop h state key of
        Inl e \<Rightarrow> (Inl e, h)
      | Inr previousStateForKey \<Rightarrow>
          (case reducer previousStateForKey action h of
             (Inl e, h1) \<Rightarrow> (Inl e, h1)
           | (Inr nextStateForKey, h1) \<Rightarrow>
               if typeof nextStateForKey = ''undefined''
               then (Inl (Error (getUndefinedStateErrorMessage h1 key action)), h1)
               else combination_loop rest state action nextState
                      (hasChanged \<or> nextStateForKey \<noteq> previousStateForKey)
                      (set_prop h1 nextState key nextStateForKey)))"

text \<open>
  The body of \<open>combination\<close> after the test of \<open>shapeAssertionError\<close>: a new
  record is allocated, the loop fills it, and the result is the new record or the
  state passed in.
\<close>

definition combine_slices ::
  "combination_closure \<Rightarrow> jsval \<Rightarrow> jsval \<Rightarrow> heap \<Rightarrow> (error + jsval) \<times> heap" where
  "combine_slices c state action h0 =
     (case alloc h0 empty_object of (nextState, h1) \<Rightarrow>
        (case combination_loop (finalReducers c) state action nextState False h1 of
           (Inl e, h2) \<Rightarrow> (Inl e, h2)
         | (Inr hasChanged, h2) \<Rightarrow> (Inr (if hasChanged then nextState else state), h2)))"

text \<open>
  \<open>combination(state = {}, action)\<close>.  \<open>if (shapeAssertionError)\<close> tests the
  captured value for truthiness: a falsy value thrown during the probes is captured
  but not thrown again.
\<close>

definition combination ::
  "combination_closure \<Rightarrow> jsval \<Rightarrow> jsval \<Rightarrow> heap \<Rightarrow> (error + jsval) \<times> heap" where
  "combination c state0 action h =
     (case (if state0 = Undefined then alloc h empty_object else (state0, h)) of (state, h0) \<Rightarrow>
        (case shapeAssertionError c of
           Some e \<Rightarrow> if thrown_truthy e then (Inl e, h0) else combine_slices c state action h0
         | None \<Rightarrow> combine_slices c state action h0))"

text \<open>
  The calls the loop of \<open>combination\<close> makes, in order: for each key reached, the
  previous slice it read and what the sub-reducer did with it.
\<close>

fun slice_calls ::
  "(string \<times> reducer) list \<Rightarrow> jsval \<Rightarrow> jsval \<Rightarrow> jsval \<Rightarrow> heap \<Rightarrow> (jsval \<times> (error + jsval)) list" where
  "slice_calls [] state action nextState h = []"
| "slice_calls ((key, reducer) # rest) state action nextState h =
     (case get_prop h state key of
        Inl e \<Rightarrow> []
      | Inr previousStateForKey \<Rightarrow>
          (case reducer previousStateForKey action h of
             (Inl e, h1) \<Rightarrow> [(previousStateForKey, Inl e)]
           | (Inr nextStateForKey, h1) \<Rightarrow>
               (previousStateForKey, Inr nextStateForKey) #
               (if typeof nextStateForKey = ''undefined'' then []
                else slice_calls rest state action nextState
                       (set_prop h1 nextState key nextStateForKey))))"


definition combination_calls ::
  "combination_closure \<Rightarrow> jsval \<Rightarrow> jsval \<Rightarrow> heap \<Rightarrow> (jsval \<times> (error + jsval)) list" where
  "combination_calls c state action h =
     (case alloc h empty_object of (nextState, h1) \<Rightarrow>
        slice_calls (finalReducers c) state action nextState h1)"

text \<open>
  A reducer fails a probe when it returns \<open>undefined\<close> for an undefined state and an
  action of the probed type.
\<close>

definition returns_undefined_for :: "reducer \<Rightarrow> string \<Rightarrow> bool" where
  "returns_undefined_for r ty =
     (\<forall>h a. get_prop h a ''type'' = Inr (String ty) \<longrightarrow> (\<exists>h'. r Undefined a h = (Inr Undefined, h')))"

text \<open>
  A reducer passes a probe when it returns a defined value for an undefined state and
  an action of the probed type, and passes the shape assertion when it passes the
  probe with the private action and the probe with the random type drawn for it.
\<close>

definition returns_defined_for :: "reducer \<Rightarrow> string \<Rightarrow> bool" where
  "returns_defined_for r ty =
     (\<forall>h a. get_prop h a ''type'' = Inr (String ty) \<longrightarrow>
        (\<exists>v h'. r Undefined a h = (Inr v, h') \<and> v \<noteq> Undefined))"

definition passes_probes :: "reducer \<Rightarrow> string \<Rightarrow> bool" where
  "passes_probes r suffix =
     (returns_defined_for r ActionTypes_INIT \<and> returns_defined_for r (probe_type suffix))"


section \<open>connectAdvanced (src/react-redux/connect/mergeProps.js)\<close>

subsection \<open>The stateful selector\<close>

text \<open>
  \<open>makeSelectorStateful\<close> wraps the source selector in an object that remembers the
  last props, the last error and whether the component has to update.  A fresh cell
  has none of the three fields (\<open>undefined\<close>).  The source selector is called with
  \<open>store.getState()\<close> and the props, and throws or returns the next props.
  \<open>sel_error\<close> is \<open>None\<close> for a cell without an error (the fresh cell, and
  \<open>selector.error = null\<close> after a run that returned) and otherwise holds the value
  caught, whatever it is; the source tests the field for truthiness
  (\<open>|| selector.error\<close>, \<open>if (selector.error)\<close>).
\<close>

record selector =
  sel_props :: jsval
  sel_error :: "error option"
  sel_shouldComponentUpdate :: bool

type_synonym sourceSelector = "jsval \<Rightarrow> jsval \<Rightarrow> error + jsval"


definition runComponentSelector :: "sourceSelector \<Rightarrow> jsval \<Rightarrow> jsval \<Rightarrow> selector \<Rightarrow> selector" where
  "runComponentSelector sourceSelector state props sel =
     (case sourceSelector state props of
        Inr nextProps \<Rightarrow>
          if nextProps \<noteq> sel_props sel \<or> caught_truthy (sel_error sel)
          then sel\<lparr>sel_shouldComponentUpdate := True, sel_props := nextProps, sel_error := None\<rparr>
          else sel
      | Inl e \<Rightarrow> sel\<lparr>sel_shouldComponentUpdate := True, sel_error := Some e\<rparr>)"

text \<open>
  \<open>Connect.render\<close> clears the update flag and throws the stored error if it is
  truthy; otherwise it creates the element of the wrapped component from the stored
  props.  (With the default
  options \<open>addExtraProps\<close> returns the props as they are; the element is represented
  by the props it is created from.)
\<close>

definition render :: "selector \<Rightarrow> (error + jsval) \<times> selector" where
  "render sel =
     (let sel' = sel\<lparr>sel_shouldComponentUpdate := False\<rparr>
      in case sel_error sel' of
           Some e \<Rightarrow> if thrown_truthy e then (Inl e, sel') else (Inr (sel_props sel'), sel')
         | None \<Rightarrow> (Inr (sel_props sel'), sel'))"

subsection \<open>Containers and their notification\<close>

text \<open>
  A mounted \<open>Connect\<close> instance: its source selector, its own props, its selector
  cell, whether \<open>componentDidUpdate\<close> is currently implemented (set to
  \<open>notifyNestedSubsOnComponentDidUpdate\<close>), and the containers subscribed to its
  subscription, in the order they subscribed.  The calls out of the binding that a
  notification causes are recorded as events.
\<close>

datatype container =
  Container (cname: nat) (source: sourceSelector) (ownProps: jsval) (cell: selector)
    (componentDidUpdate: bool) (nested: "container list")

datatype event = SelectorRun nat | Render nat

type_synonym notified = "error option \<times> event list"

text \<open>
  Modelled from the spec: two of the four functions defined together here, the host's
  \<open>setState\<close> (the host tree is not part of the sources) and \<open>notifyNestedSubs\<close> of
  the subscription node (utils/Subscription is not among the sources).  On
  \<open>setState\<close> the host asks \<open>shouldComponentUpdate\<close>, which returns the cell's flag;
  if it is set the host calls \<open>render\<close> and, once the output is reconciled, the
  component's \<open>componentDidUpdate\<close> if it is implemented; an exception of \<open>render\<close>
  ends the update.  \<open>notifyNestedSubs\<close> invokes the state-change handler of every
  nested container in order.

  The other two are the source's.  \<open>onStateChange\<close> runs the selector; if the
  component need not update it notifies the nested subscriptions at once, otherwise it
  implements \<open>componentDidUpdate\<close> and calls \<open>setState(dummyState)\<close>.
  \<open>notifyNestedSubsOnComponentDidUpdate\<close> unimplements \<open>componentDidUpdate\<close> and
  notifies the nested subscriptions.
\<close>

fun onStateChange :: "jsval \<Rightarrow> container \<Rightarrow> container \<times> notified"
and setState :: "jsval \<Rightarrow> container \<Rightarrow> container \<times> notified"
and notifyNestedSubsOnComponentDidUpdate :: "jsval \<Rightarrow> container \<Rightarrow> container \<times> notified"
and notifyNestedSubs :: "jsval \<Rightarrow> container list \<Rightarrow> container list \<times> notified"
where
  "onStateChange state (Container i f p sel du cs) =
     (let sel1 = runComponentSelector f state p sel
      in if \<not> sel_shouldComponentUpdate sel1
         then (case notifyNestedSubs state cs of
                 (cs', e, evs) \<Rightarrow> (Container i f p sel1 du cs', e, SelectorRun i # evs))
         else (case setState state (Container i f p sel1 True cs) of
                 (c', e, evs) \<Rightarrow> (c', e, SelectorRun i # evs)))"

| "setState state (Container i f p sel du cs) =
     (if sel_shouldComponentUpdate sel
      then (case render sel of
              (Inl e, sel') \<Rightarrow> (Container i f p sel' du cs, Some e, [Render i])
            | (Inr element, sel') \<Rightarrow>
                if du
                then (case notifyNestedSubsOnComponentDidUpdate state (Container i f p sel' du cs) of
                        (c', e, evs) \<Rightarrow> (c', e, Render i # evs))
                else (Container i f p sel' du cs, None, [Render i]))
      else (Container i f p sel du cs, None, []))"

| "notifyNestedSubsOnComponentDidUpdate state (Container i f p sel du cs) =
     (case notifyNestedSubs state cs of
        (cs', e, evs) \<Rightarrow> (Container i f p sel False cs', e, evs))"

| "notifyNestedSubs state [] = ([], None, [])"
| "notifyNestedSubs state (c # cs) =
     (case onStateChange state c of
        (c', Some e, evs) \<Rightarrow> (c' # cs, Some e, evs)
      | (c', None, evs) \<Rightarrow>
          (case notifyNestedSubs state cs of
             (cs', e, evs') \<Rightarrow> (c' # cs', e, evs @ evs')))"

text \<open>The names of a container and of everything nested in it.\<close>

fun names :: "container \<Rightarrow> nat set" where
  "names (Container i f p sel du cs) = insert i (\<Union> (names ` set cs))"

fun event_name :: "event \<Rightarrow> nat" where
  "event_name (SelectorRun i) = i"
| "event_name (Render i) = i"


section \<open>Example programs and stores\<close>

text \<open>
  Concrete inputs at which the theorems below are instantiated.  \<open>counter\<close> is the
  reducer \<open>count(state = 0, action) => action.type === 'INC' ? state + 1 : state\<close>;
  user function 0 is that reducer, 1 is a listener that calls the \<open>unsubscribe\<close>
  function of the second subscription, 2 is a listener that allocates an object each
  time it is invoked, 3 is a reducer that dispatches and catches the exception, 4 is
  an observer's \<open>next\<close> that allocates an object holding the value it received, and 5
  is a listener that dispatches \<open>{type: 'INC'}\<close> again while the state is below \<open>2\<close>.
\<close>

definition ping :: obj where
  "ping = \<lparr>kind = PlainObject, properties = [(''type'', String ''INC'')]\<rparr>"

definition marker :: obj where
  "marker = \<lparr>kind = InstanceObject, properties = []\<rparr>"

definition counter :: "jsval list \<Rightarrow> heap \<Rightarrow> jsval" where
  "counter args h =
     (case args of
        [state, action] \<Rightarrow>
          (let st = (if state = Undefined then Number 0 else state)
           in if get_prop h action ''type'' = Inr (String ''INC'')
              then (case st of Number k \<Rightarrow> Number (k + 1) | _ \<Rightarrow> st)
              else st)
      | _ \<Rightarrow> Undefined)"

definition counter_funs :: funs where
  "counter_funs i args =
     (if i = 0 then Local (\<lambda>h. (counter args h, h)) Return
      else if i = 2 then Local (\<lambda>h. (Undefined, h @ [marker])) Return
      else Return Undefined)"

definition example_funs :: funs where
  "example_funs i args =
     (if i = 1 then Do (Call (Function (Unsubscribe 1)) []) (\<lambda>r. Return Undefined)
      else if i = 3 then
        Do (Dispatch (Obj 0)) (\<lambda>r. case r of Inl e \<Rightarrow> Return (String ''caught'') | Inr v \<Rightarrow> Return v)
      else if i = 4 then
        Local (\<lambda>h. (Undefined, h @ [\<lparr>kind = InstanceObject, properties = [(''seen'', (case args of v # _ \<Rightarrow> v | [] \<Rightarrow> Undefined))]\<rparr>])) Return
      else if i = 5 then
        Do GetState (\<lambda>r. case r of
            Inr (Number k) \<Rightarrow>
              if k < 2 then Do (Dispatch (Obj 0)) (\<lambda>r. Return Undefined) else Return Undefined
          | _ \<Rightarrow> Return Undefined)
      else counter_funs i args)"

definition counter_store :: store where
  "counter_store =
     \<lparr>heap = [ping], currentReducer = Function (User 0), currentState = Number 0,
      arrays = [[Function (User 2)]], currentListeners = 0, nextListeners = 0,
      isDispatching = False, subscriptions = [(Function (User 2), True)]\<rparr>"

definition two_listeners :: store where
  "two_listeners =
     \<lparr>heap = [ping], currentReducer = Function (User 0), currentState = Number 0,
      arrays = [[Function (User 1), Function (User 2)]], currentListeners = 0, nextListeners = 0,
      isDispatching = False,
      subscriptions = [(Function (User 1), True), (Function (User 2), True)]\<rparr>"

definition dispatching_reducer :: store where
  "dispatching_reducer =
     \<lparr>heap = [ping], currentReducer = Function (User 3), currentState = Number 0,
      arrays = [[]], currentListeners = 0, nextListeners = 0,
      isDispatching = False, subscriptions = []\<rparr>"

definition redispatching :: store where
  "redispatching =
     \<lparr>heap = [ping], currentReducer = Function (User 0), currentState = Number 0,
      arrays = [[Function (User 5)]], currentListeners = 0, nextListeners = 0,
      isDispatching = False, subscriptions = [(Function (User 5), True)]\<rparr>"

definition observed :: store where
  "observed =
     \<lparr>heap = [ping, \<lparr>kind = PlainObject, properties = [(''next'', Function (User 4))]\<rparr>],
      currentReducer = Function (User 0), currentState = Number 7,
      arrays = [[]], currentListeners = 0, nextListeners = 0,
      isDispatching = False, subscriptions = []\<rparr>"

text \<open>
  The store \<open>two_listeners\<close> in the middle of a dispatch of \<open>{type: 'INC'}\<close>, after
  its first listener has run and cancelled the second subscription.
\<close>

definition after_unsubscribe :: store where
  "after_unsubscribe =
     \<lparr>heap = [ping], currentReducer = Function (User 0), currentState = Number 1,
      arrays = [[Function (User 1), Function (User 2)], [Function (User 1)]],
      currentListeners = 0, nextListeners = 1, isDispatching = False,
      subscriptions = [(Function (User 1), True), (Function (User 2), False)]\<rparr>"

text \<open>
  Sub-reducers, a combined reducer and a heap with two actions and a state object.
  \<open>bad_reducer\<close> has no initial state; \<open>private_reducer\<close> has one for the private
  action only.
\<close>

definition inc_reducer :: reducer where
  "inc_reducer prev action h = (Inr (counter [prev, action] h), h)"

definition keep_reducer :: reducer where
  "keep_reducer prev action h = (Inr (if prev = Undefined then Null else prev), h)"

definition bad_reducer :: reducer where
  "bad_reducer prev action h = (Inr prev, h)"

definition private_reducer :: reducer where
  "private_reducer prev action h =
     (Inr (if get_prop h action ''type'' = Inr (String ActionTypes_INIT) then Number 0 else prev), h)"

definition example_combination :: combination_closure where
  "example_combination =
     \<lparr>finalReducers = [(''a'', inc_reducer), (''b'', keep_reducer)], shapeAssertionError = None\<rparr>"

definition example_heap :: heap where
  "example_heap =
     [ping,
      \<lparr>kind = PlainObject, properties = [(''type'', String ''NOOP'')]\<rparr>,
      \<lparr>kind = PlainObject, properties = [(''a'', Number 1), (''b'', Null)]\<rparr>]"

text \<open>
  A container that selects the whole state, with one nested container whose selector
  always returns the props it already has.
\<close>

definition example_child :: container where
  "example_child =
     Container 1 (\<lambda>state props. Inr (String ''fixed'')) Undefined
       \<lparr>sel_props = String ''fixed'', sel_error = None, sel_shouldComponentUpdate = False\<rparr>
       False []"

definition example_parent :: container where
  "example_parent =
     Container 0 (\<lambda>state props. Inr state) Undefined
       \<lparr>sel_props = Number 0, sel_error = None, sel_shouldComponentUpdate = False\<rparr>
       False [example_child]"





section \<open>The functions of the store as recursive equations\<close>

text \<open>
  Unfolding \<open>exec\<close> once gives, for each function of the store, the equation that
  mirrors its source text, with the calls it makes written by name.
\<close>

declare exec.simps [simp del]

lemma run_0 [simp]: "run 0 fs p s = (None, s)"
  unfolding run_def by (simp add: exec.simps)

lemma run_Return [simp]: "run (Suc n) fs (Return v) s = (Some (Inr v), s)"
  unfolding run_def by (simp add: exec.simps)

lemma run_Throw [simp]: "run (Suc n) fs (Throw e) s = (Some (Inl e), s)"
  unfolding run_def by (simp add: exec.simps)

lemma run_Local [simp]:
  "run (Suc n) fs (Local f k) s =
     (case f (heap s) of (v, h') \<Rightarrow> run n fs (k v) (s\<lparr>heap := h'\<rparr>))"
  unfolding run_def by (simp add: exec.simps)

lemma run_Do [simp]:
  "run (Suc n) fs (Do c k) s =
     (case store_call n fs c s of
        (None, s') \<Rightarrow> (None, s')
      | (Some r, s') \<Rightarrow> run n fs (k r) s')"
  unfolding run_def store_call_def by (simp add: exec.simps)

lemma call_fn_0 [simp]: "call_fn 0 fs f args s = (None, s)"
  unfolding call_fn_def by (simp add: exec.simps)

lemma call_fn_Suc:
  "call_fn (Suc n) fs f args s =
     (case f of
        Function (User i) \<Rightarrow> run n fs (fs i args) s
      | Function (Unsubscribe sub) \<Rightarrow> (case unsubscribe sub s of (r, s') \<Rightarrow> (Some r, s'))
      | Function (ObserveState c observer) \<Rightarrow> observeState n fs observer s
      | _ \<Rightarrow> (Some (Inl (TypeError ''not a function'')), s))"
  unfolding call_fn_def run_def observeState_def by (simp add: exec.simps)

lemma store_call_0 [simp]: "store_call 0 fs c s = (None, s)"
  unfolding store_call_def by (simp add: exec.simps)

lemma store_call_Suc:
  "store_call (Suc n) fs c s =
     (case c of
        GetState \<Rightarrow> (Some (Inr (currentState s)), s)
      | Dispatch action \<Rightarrow> dispatch n fs action s
      | Subscribe listener \<Rightarrow> (case subscribe listener s of (r, s') \<Rightarrow> (Some r, s'))
      | ReplaceReducer nextReducer \<Rightarrow> replaceReducer n fs nextReducer s
      | ObservableSubscribe observer \<Rightarrow> observable_subscribe n fs observer s
      | Call f args \<Rightarrow> call_fn n fs f args s)"
  unfolding store_call_def dispatch_def replaceReducer_def observable_subscribe_def call_fn_def by (simp add: exec.simps)

lemma dispatch_0 [simp]: "dispatch 0 fs action s = (None, s)"
  unfolding dispatch_def by (simp add: exec.simps)

lemma dispatch_Suc:
  "dispatch (Suc n) fs action s =
     (if \<not> isPlainObject (heap s) action then (Some (Inl (Error msg_plain)), s)
      else
        (case get_prop (heap s) action ''type'' of
           Inl e \<Rightarrow> (Some (Inl e), s)
         | Inr ty \<Rightarrow>
             if typeof ty = ''undefined'' then (Some (Inl (Error msg_type)), s)
             else if isDispatching s then (Some (Inl (Error msg_reducer_dispatch)), s)
             else
               (case call_fn n fs (currentReducer s) [currentState s, action]
                       (s\<lparr>isDispatching := True\<rparr>) of
                  (None, s1) \<Rightarrow> (None, s1)
                | (Some (Inl e), s1) \<Rightarrow> (Some (Inl e), s1\<lparr>isDispatching := False\<rparr>)
                | (Some (Inr v), s1) \<Rightarrow>
                    (case listeners_loop n fs (nextListeners s1) 0
                            (s1\<lparr>currentState := v, isDispatching := False,
                                currentListeners := nextListeners s1\<rparr>) of
                       (Some (Inr _), s4) \<Rightarrow> (Some (Inr action), s4)
                     | (r, s4) \<Rightarrow> (r, s4)))))"
  unfolding dispatch_def call_fn_def listeners_loop_def by (simp add: exec.simps)

lemma listeners_loop_0 [simp]: "listeners_loop 0 fs listeners i s = (None, s)"
  unfolding listeners_loop_def by (simp add: exec.simps)

lemma listeners_loop_Suc:
  "listeners_loop (Suc n) fs listeners i s =
     (if i < length (array_at s listeners)
      then
        (case call_fn n fs (array_at s listeners ! i) [] s of
           (Some (Inr _), s') \<Rightarrow> listeners_loop n fs listeners (i + 1) s'
         | (r, s') \<Rightarrow> (r, s'))
      else (Some (Inr Undefined), s))"
  unfolding call_fn_def listeners_loop_def by (simp add: exec.simps)

lemma replaceReducer_0 [simp]: "replaceReducer 0 fs nextReducer s = (None, s)"
  unfolding replaceReducer_def by (simp add: exec.simps)

lemma replaceReducer_Suc:
  "replaceReducer (Suc n) fs nextReducer s =
     (if typeof nextReducer \<noteq> ''function''
      then (Some (Inl (Error ''Expected the nextReducer to be a function.'')), s)
      else
        (case alloc (heap s) init_action of (action, h') \<Rightarrow>
           (case dispatch n fs action (s\<lparr>currentReducer := nextReducer, heap := h'\<rparr>) of
              (Some (Inr _), s') \<Rightarrow> (Some (Inr Undefined), s')
            | (r, s') \<Rightarrow> (r, s'))))"
  unfolding replaceReducer_def dispatch_def by (simp add: exec.simps)

lemma observeState_0 [simp]: "observeState 0 fs observer s = (None, s)"
  unfolding observeState_def by (simp add: exec.simps)

lemma observeState_Suc:
  "observeState (Suc n) fs observer s =
     (case get_prop (heap s) observer ''next'' of
        Inl e \<Rightarrow> (Some (Inl e), s)
      | Inr nxt \<Rightarrow>
          if truthy nxt
          then
            (case call_fn n fs nxt [currentState s] s of
               (Some (Inr _), s') \<Rightarrow> (Some (Inr Undefined), s')
             | (r, s') \<Rightarrow> (r, s'))
          else (Some (Inr Undefined), s))"
  unfolding observeState_def call_fn_def by (simp add: exec.simps)

lemma observable_subscribe_0 [simp]: "observable_subscribe 0 fs observer s = (None, s)"
  unfolding observable_subscribe_def by (simp add: exec.simps)

lemma observable_subscribe_Suc:
  "observable_subscribe (Suc n) fs observer s =
     (if typeof observer \<noteq> ''object''
      then (Some (Inl (TypeError ''Expected the observer to be an object.'')), s)
      else
        (case observeState n fs observer s of
           (Some (Inr _), s1) \<Rightarrow>
             (case subscribe (Function (ObserveState (length (subscriptions s1)) observer)) s1 of
                (Inl e, s2) \<Rightarrow> (Some (Inl e), s2)
              | (Inr unsub, s2) \<Rightarrow>
                  (case alloc (heap s2) \<lparr>kind = PlainObject, properties = [(''unsubscribe'', unsub)]\<rparr> of
                     (subscription, h') \<Rightarrow> (Some (Inr subscription), s2\<lparr>heap := h'\<rparr>)))
         | (r, s1) \<Rightarrow> (r, s1)))"
  unfolding observable_subscribe_def observeState_def by (simp add: exec.simps)


section \<open>Invariants of the store\<close>

text \<open>
  \<open>subscribe\<close> and \<open>unsubscribe\<close> touch the listener arrays and the subscriptions
  only.
\<close>

lemma subscribe_frame:
  "subscribe l s = (r, s') \<Longrightarrow>
     isDispatching s' = isDispatching s \<and> currentState s' = currentState s \<and>
     currentReducer s' = currentReducer s \<and> heap s' = heap s \<and>
     currentListeners s' = currentListeners s"
  by (auto simp: subscribe_def ensureCanMutateNextListeners_def Let_def split: if_splits)

lemma unsubscribe_frame:
  "unsubscribe sub s = (r, s') \<Longrightarrow>
     isDispatching s' = isDispatching s \<and> currentState s' = currentState s \<and>
     currentReducer s' = currentReducer s \<and> heap s' = heap s \<and>
     currentListeners s' = currentListeners s"
  by (auto simp: unsubscribe_def ensureCanMutateNextListeners_def Let_def
      split: if_splits prod.splits)

text \<open>
  Every computation that finishes leaves \<open>isDispatching\<close> as it found it, and while
  the flag is set nothing changes \<open>currentState\<close>.
\<close>

lemma flag_inv:
  "exec n fs t s = (Some r, s') \<Longrightarrow>
     isDispatching s' = isDispatching s \<and> (isDispatching s \<longrightarrow> currentState s' = currentState s)"
proof (induction n arbitrary: t s r s')
  case 0
  then show ?case by (simp add: exec.simps)
next
  case (Suc n)
  note IH = Suc.IH
  show ?case
  proof (cases t)
    case (RunT p)
    then show ?thesis using Suc.prems
      by (auto simp: exec.simps split: prog.splits prod.splits option.splits dest!: IH)
  next
    case (CallFnT f args)
    then show ?thesis using Suc.prems
      by (auto simp: exec.simps split: jsval.splits fn.splits prod.splits option.splits
          dest!: IH subscribe_frame unsubscribe_frame)
  next
    case (StoreCallT c)
    then show ?thesis using Suc.prems
      by (auto simp: exec.simps split: call.splits prod.splits option.splits
          dest!: IH subscribe_frame unsubscribe_frame)
  next
    case (DispatchT a)
    then show ?thesis using Suc.prems
      by (auto simp: exec.simps split: if_splits sum.splits prod.splits option.splits
          dest!: IH)
  next
    case (ListenersLoopT a i)
    then show ?thesis using Suc.prems
      by (auto simp: exec.simps split: if_splits sum.splits prod.splits option.splits
          dest!: IH)
  next
    case (ReplaceReducerT x6)
    then show ?thesis using Suc.prems
      by (auto simp: exec.simps alloc_def split: if_splits sum.splits prod.splits option.splits
          dest!: IH)
  next
    case (ObserveStateT x7)
    then show ?thesis using Suc.prems
      by (auto simp: exec.simps split: if_splits sum.splits prod.splits option.splits
          dest!: IH)
  next
    case (ObservableSubscribeT x8)
    then show ?thesis using Suc.prems
      by (auto simp: exec.simps alloc_def split: if_splits sum.splits prod.splits option.splits
          dest!: IH subscribe_frame)
  qed
qed


text \<open>
  The step bound only cuts computations short: an outcome reached within a bound is
  the outcome for every larger bound.
\<close>

lemma exec_mono:
  "exec n fs t s = (Some r, s') \<Longrightarrow> exec (Suc n) fs t s = (Some r, s')"
proof (induction n arbitrary: t s r s')
  case 0
  then show ?case by (simp add: exec.simps)
next
  case (Suc n)
  note IH = Suc.IH
  show ?case
  proof (cases t)
    case (RunT p)
    then show ?thesis using Suc.prems
      apply (subst exec.simps)
      apply (subst (asm) exec.simps)
      by (auto split: prog.splits prod.splits option.splits dest!: IH)
  next
    case (CallFnT f args)
    then show ?thesis using Suc.prems
      apply (subst exec.simps)
      apply (subst (asm) exec.simps)
      by (auto split: jsval.splits fn.splits prod.splits option.splits dest!: IH)
  next
    case (StoreCallT c)
    then show ?thesis using Suc.prems
      apply (subst exec.simps)
      apply (subst (asm) exec.simps)
      by (auto split: call.splits prod.splits option.splits dest!: IH)
  next
    case (DispatchT act)
    then show ?thesis using Suc.prems
      apply (subst exec.simps)
      apply (subst (asm) exec.simps)
      by (auto split: if_splits sum.splits prod.splits option.splits dest!: IH)
  next
    case (ListenersLoopT b i)
    then show ?thesis using Suc.prems
      apply (subst exec.simps)
      apply (subst (asm) exec.simps)
      by (auto split: if_splits sum.splits prod.splits option.splits dest!: IH)
  next
    case (ReplaceReducerT x6)
    then show ?thesis using Suc.prems
      apply (subst exec.simps)
      apply (subst (asm) exec.simps)
      by (auto simp: alloc_def split: if_splits sum.splits prod.splits option.splits dest!: IH)
  next
    case (ObserveStateT x7)
    then show ?thesis using Suc.prems
      apply (subst exec.simps)
      apply (subst (asm) exec.simps)
      by (auto split: if_splits sum.splits prod.splits option.splits dest!: IH)
  next
    case (ObservableSubscribeT x8)
    then show ?thesis using Suc.prems
      apply (subst exec.simps)
      apply (subst (asm) exec.simps)
      by (auto simp: alloc_def split: if_splits sum.splits prod.splits option.splits dest!: IH)
  qed
qed

lemma exec_mono_le:
  "n \<le> m \<Longrightarrow> exec n fs t s = (Some r, s') \<Longrightarrow> exec m fs t s = (Some r, s')"
  by (induction m) (auto simp: le_Suc_eq exec_mono)

text \<open>Quiet user code never changes \<open>currentState\<close>.\<close>

lemma quiet_inv:
  assumes q: "\<forall>i args. quiet (fs i args)"
  shows "exec n fs t s = (r, s') \<Longrightarrow> quiet_task t \<Longrightarrow> currentState s' = currentState s"
proof (induction n arbitrary: t s r s')
  case 0
  then show ?case by (simp add: exec.simps)
next
  case (Suc n)
  note IH = Suc.IH
  show ?case
  proof (cases t)
    case (RunT p)
    then show ?thesis using Suc.prems
      by (auto simp: exec.simps quiet_task_def split: prog.splits prod.splits option.splits dest!: IH)
  next
    case (CallFnT f args)
    then show ?thesis using Suc.prems q
      by (auto simp: exec.simps quiet_task_def split: jsval.splits fn.splits prod.splits option.splits
          dest!: IH subscribe_frame unsubscribe_frame)
  next
    case (StoreCallT c)
    then show ?thesis using Suc.prems
      by (auto simp: exec.simps quiet_task_def quiet_call_def split: call.splits prod.splits option.splits
          dest!: IH subscribe_frame unsubscribe_frame)
  next
    case (DispatchT a)
    then show ?thesis using Suc.prems by (simp add: quiet_task_def)
  next
    case (ListenersLoopT a i)
    then show ?thesis using Suc.prems
      by (auto simp: exec.simps quiet_task_def split: if_splits sum.splits prod.splits option.splits
          dest!: IH)
  next
    case (ReplaceReducerT x6)
    then show ?thesis using Suc.prems by (simp add: quiet_task_def)
  next
    case (ObserveStateT x7)
    then show ?thesis using Suc.prems
      by (auto simp: exec.simps quiet_task_def split: if_splits sum.splits prod.splits option.splits
          dest!: IH)
  next
    case (ObservableSubscribeT x8)
    then show ?thesis using Suc.prems
      by (auto simp: exec.simps quiet_task_def alloc_def split: if_splits sum.splits prod.splits option.splits
          dest!: IH subscribe_frame)
  qed
qed


text \<open>
  An array that is safe from mutation stays safe and keeps its contents, whatever is
  executed: the only writes to an array are the \<open>push\<close> of \<open>subscribe\<close> and the
  \<open>splice\<close> of \<open>unsubscribe\<close>, both on \<open>nextListeners\<close> after
  \<open>ensureCanMutateNextListeners\<close>.
\<close>

lemma subscribe_snapshot:
  "subscribe l s = (r, s') \<Longrightarrow> snapshot_ok a s \<Longrightarrow> snapshot_ok a s' \<and> array_at s' a = array_at s a"
  by (auto simp: subscribe_def ensureCanMutateNextListeners_def Let_def snapshot_ok_def
      valid_arrays_def array_at_def nth_append split: if_splits)

lemma unsubscribe_snapshot:
  "unsubscribe sub s = (r, s') \<Longrightarrow> snapshot_ok a s \<Longrightarrow> snapshot_ok a s' \<and> array_at s' a = array_at s a"
  by (auto simp: unsubscribe_def ensureCanMutateNextListeners_def Let_def snapshot_ok_def
      valid_arrays_def array_at_def nth_append split: if_splits prod.splits)

lemma snapshot_ok_upd [simp]:
  "snapshot_ok a (s\<lparr>heap := h\<rparr>) = snapshot_ok a s"
  "snapshot_ok a (s\<lparr>isDispatching := b\<rparr>) = snapshot_ok a s"
  "snapshot_ok a (s\<lparr>currentState := v\<rparr>) = snapshot_ok a s"
  "snapshot_ok a (s\<lparr>currentReducer := f\<rparr>) = snapshot_ok a s"
  by (simp_all add: snapshot_ok_def valid_arrays_def)

lemma array_at_upd [simp]:
  "array_at (s\<lparr>heap := h\<rparr>) a = array_at s a"
  "array_at (s\<lparr>isDispatching := b\<rparr>) a = array_at s a"
  "array_at (s\<lparr>currentState := v\<rparr>) a = array_at s a"
  "array_at (s\<lparr>currentReducer := f\<rparr>) a = array_at s a"
  "array_at (s\<lparr>currentListeners := c\<rparr>) a = array_at s a"
  by (simp_all add: array_at_def)

lemma snapshot_ok_current:
  "snapshot_ok a s \<Longrightarrow>
     snapshot_ok a (s\<lparr>currentState := v, isDispatching := b, currentListeners := nextListeners s\<rparr>)"
  by (simp add: snapshot_ok_def valid_arrays_def)

lemma snapshot_inv:
  "exec n fs t s = (r, s') \<Longrightarrow> snapshot_ok a s \<Longrightarrow>
     snapshot_ok a s' \<and> array_at s' a = array_at s a"
proof (induction n arbitrary: t s r s')
  case 0
  then show ?case by (simp add: exec.simps)
next
  case (Suc n)
  note IH = Suc.IH
  show ?case
  proof (cases t)
    case (RunT p)
    then show ?thesis using Suc.prems
      by (auto simp: exec.simps split: prog.splits prod.splits option.splits dest!: IH)
  next
    case (CallFnT f args)
    then show ?thesis using Suc.prems
      by (auto simp: exec.simps split: jsval.splits fn.splits prod.splits option.splits
          dest!: IH unsubscribe_snapshot)
  next
    case (StoreCallT c)
    then show ?thesis using Suc.prems
      by (auto simp: exec.simps split: call.splits prod.splits option.splits
          dest!: IH subscribe_snapshot)
  next
    case (DispatchT act)
    then show ?thesis using Suc.prems
      by (auto simp: exec.simps snapshot_ok_current split: if_splits sum.splits prod.splits option.splits
          dest!: IH)
  next
    case (ListenersLoopT b i)
    then show ?thesis using Suc.prems
      by (auto simp: exec.simps split: if_splits sum.splits prod.splits option.splits
          dest!: IH)
  next
    case (ReplaceReducerT x6)
    then show ?thesis using Suc.prems
      by (auto simp: exec.simps alloc_def split: if_splits sum.splits prod.splits option.splits
          dest!: IH)
  next
    case (ObserveStateT x7)
    then show ?thesis using Suc.prems
      by (auto simp: exec.simps split: if_splits sum.splits prod.splits option.splits
          dest!: IH)
  next
    case (ObservableSubscribeT x8)
    then show ?thesis using Suc.prems
      by (auto simp: exec.simps alloc_def split: if_splits sum.splits prod.splits option.splits
          dest!: IH subscribe_snapshot)
  qed
qed

lemma loop_is_invoke_all:
  "snapshot_ok a s \<Longrightarrow>
     listeners_loop n fs a i s = invoke_all n fs (drop i (array_at s a)) s"
proof (induction n arbitrary: i s)
  case 0
  then show ?case by simp
next
  case (Suc n)
  show ?case
  proof (cases "i < length (array_at s a)")
    case False
    then show ?thesis by (simp add: listeners_loop_Suc)
  next
    case True
    then have d: "drop i (array_at s a) = array_at s a ! i # drop (Suc i) (array_at s a)"
      by (simp add: Cons_nth_drop_Suc)
    obtain r1 s1 where c: "call_fn n fs (array_at s a ! i) [] s = (r1, s1)"
      by (cases "call_fn n fs (array_at s a ! i) [] s")
    from snapshot_inv[OF c[unfolded call_fn_def] Suc.prems]
    have ok: "snapshot_ok a s1" and same: "array_at s1 a = array_at s a" by simp_all
    show ?thesis
      using True c d Suc.IH[OF ok, of "Suc i"] same
      by (simp add: listeners_loop_Suc split: option.splits sum.splits)
  qed
qed



lemma typeof_undefined [simp]: "(typeof v = ''undefined'') = (v = Undefined)"
  by (cases v) simp_all

text \<open>A store made by \<open>createStore\<close> holds addresses of allocated arrays.\<close>

lemma createStore_valid_arrays:
  assumes "createStore n fs h reducer preloadedState enhancer = Created s"
  shows "valid_arrays s"
proof -
  let ?s0 = "\<lambda>st h'. \<lparr>heap = h', currentReducer = reducer, currentState = st,
      arrays = [[]], currentListeners = 0, nextListeners = 0,
      isDispatching = False, subscriptions = []\<rparr>"
  have ok: "snapshot_ok 0 (?s0 st h')" for st h'
    by (simp add: snapshot_ok_def valid_arrays_def)
  from assms obtain st h' r where "dispatch n fs (Obj (length h)) (?s0 st h') = (r, s)"
    by (auto simp: createStore_def Let_def alloc_def
        split: if_splits prod.splits option.splits sum.splits)
  from snapshot_inv[OF this[unfolded dispatch_def] ok] show ?thesis
    by (simp add: snapshot_ok_def)
qed


section \<open>Properties of the store\<close>

text \<open>
  C1 (amended).  Let \<open>s\<close> be the store as any earlier sequence of calls left it, not in
  the middle of a dispatch, and let \<open>action\<close> be a plain object with a defined \<open>type\<close>.
  When \<open>currentReducer(currentState, action)\<close> returns \<open>v\<close>, \<open>dispatch(action)\<close> is
  the loop over the listeners started in a store whose \<open>currentState\<close> is \<open>v\<close>:
  \<open>getState()\<close> returns \<open>v\<close> when the listeners begin to run.  If no user function
  dispatches or replaces the reducer, \<open>getState()\<close> after the dispatch returns \<open>v\<close>
  too, whether the listeners return, one of them throws, or they are cut short.  (A
  listener may dispatch; what \<open>getState()\<close> returns after the outer dispatch is then
  the result of the nested dispatches.)
\<close>

theorem getState_after_dispatch:
  assumes "\<not> isDispatching s"
      and "isPlainObject (heap s) action"
      and "get_prop (heap s) action ''type'' = Inr ty" and "typeof ty \<noteq> ''undefined''"
      and "call_fn m fs (currentReducer s) [currentState s, action] (s\<lparr>isDispatching := True\<rparr>)
             = (Some (Inr v), s1)"
      and "m \<le> n"
    shows "dispatch (Suc n) fs action s =
             (case listeners_loop n fs (nextListeners s1) 0
                     (s1\<lparr>currentState := v, isDispatching := False,
                         currentListeners := nextListeners s1\<rparr>) of
                (Some (Inr _), s4) \<Rightarrow> (Some (Inr action), s4)
              | (r, s4) \<Rightarrow> (r, s4)) \<and>
           getState (s1\<lparr>currentState := v, isDispatching := False,
                        currentListeners := nextListeners s1\<rparr>) = v \<and>
           ((\<forall>i args. quiet (fs i args)) \<longrightarrow> getState (snd (dispatch (Suc n) fs action s)) = v)"
proof -
  let ?s2 = "s1\<lparr>currentState := v, isDispatching := False, currentListeners := nextListeners s1\<rparr>"
  have red: "call_fn n fs (currentReducer s) [currentState s, action] (s\<lparr>isDispatching := True\<rparr>)
      = (Some (Inr v), s1)"
    using exec_mono_le[OF assms(6) assms(5)[unfolded call_fn_def]] by (simp add: call_fn_def)
  have eq: "dispatch (Suc n) fs action s =
      (case listeners_loop n fs (nextListeners s1) 0 ?s2 of
         (Some (Inr _), s4) \<Rightarrow> (Some (Inr action), s4)
       | (r, s4) \<Rightarrow> (r, s4))"
    using assms(1-4) red by (simp add: dispatch_Suc)
  have start: "getState ?s2 = v" by (simp add: getState_def)
  have "getState (snd (dispatch (Suc n) fs action s)) = v" if q: "\<forall>i args. quiet (fs i args)"
  proof -
    obtain r4 s4 where loop: "listeners_loop n fs (nextListeners s1) 0 ?s2 = (r4, s4)"
      by (cases "listeners_loop n fs (nextListeners s1) 0 ?s2")
    have "currentState s4 = v"
      using quiet_inv[OF q loop[unfolded listeners_loop_def]] by (simp add: quiet_task_def)
    moreover have "snd (dispatch (Suc n) fs action s) = s4"
      unfolding eq loop by (simp split: option.splits sum.splits)
    ultimately show ?thesis by (simp add: getState_def)
  qed
  with eq start show ?thesis by blast
qed

text \<open>
  The counter reducer on a store in state \<open>0\<close> with one listener that only allocates
  an object: dispatching \<open>{type: 'INC'}\<close> leaves \<open>getState()\<close> at \<open>1\<close>.
\<close>

theorem getState_after_dispatch_witness:
  "(\<forall>i args. quiet (counter_funs i args)) \<and>
   \<not> isDispatching counter_store \<and>
   isPlainObject (heap counter_store) (Obj 0) \<and>
   get_prop (heap counter_store) (Obj 0) ''type'' = Inr (String ''INC'') \<and>
   typeof (String ''INC'') \<noteq> ''undefined'' \<and>
   call_fn 3 counter_funs (currentReducer counter_store) [currentState counter_store, Obj 0]
     (counter_store\<lparr>isDispatching := True\<rparr>) =
       (Some (Inr (Number 1)), counter_store\<lparr>isDispatching := True\<rparr>) \<and>
   (3::nat) \<le> 9 \<and>
   listeners_loop 9 counter_funs 0 0 (counter_store\<lparr>currentState := Number 1\<rparr>) =
     (Some (Inr Undefined), counter_store\<lparr>heap := [ping, marker], currentState := Number 1\<rparr>) \<and>
   dispatch 10 counter_funs (Obj 0) counter_store =
     (Some (Inr (Obj 0)), counter_store\<lparr>heap := [ping, marker], currentState := Number 1\<rparr>) \<and>
   getState (snd (dispatch 10 counter_funs (Obj 0) counter_store)) = Number 1"
proof -
  have q: "\<forall>i args. quiet (counter_funs i args)"
    by (simp add: counter_funs_def)
  have i: "\<not> isDispatching counter_store" by (simp add: counter_store_def)
  have p: "isPlainObject (heap counter_store) (Obj 0)" by code_simp
  have ty: "get_prop (heap counter_store) (Obj 0) ''type'' = Inr (String ''INC'')" by code_simp
  have d: "typeof (String ''INC'') \<noteq> ''undefined''" by simp
  have c: "call_fn 3 counter_funs (currentReducer counter_store) [currentState counter_store, Obj 0]
     (counter_store\<lparr>isDispatching := True\<rparr>) =
       (Some (Inr (Number 1)), counter_store\<lparr>isDispatching := True\<rparr>)" by code_simp
  have le: "(3::nat) \<le> 9" by simp
  have l: "listeners_loop 9 counter_funs 0 0 (counter_store\<lparr>currentState := Number 1\<rparr>) =
     (Some (Inr Undefined), counter_store\<lparr>heap := [ping, marker], currentState := Number 1\<rparr>)"
    by code_simp
  have r: "dispatch 10 counter_funs (Obj 0) counter_store =
     (Some (Inr (Obj 0)), counter_store\<lparr>heap := [ping, marker], currentState := Number 1\<rparr>)"
    by code_simp
  from getState_after_dispatch[OF i p ty d c le] q
  have g: "getState (snd (dispatch (Suc 9) counter_funs (Obj 0) counter_store)) = Number 1"
    by blast
  have "Suc 9 = 10" by simp
  with g have g': "getState (snd (dispatch 10 counter_funs (Obj 0) counter_store)) = Number 1"
    by simp
  from q i p ty d c le l r g' show ?thesis by blast
qed

text \<open>
  As the claim is written it fails when a listener dispatches.  The store
  \<open>redispatching\<close> is in state \<open>0\<close> and has one listener, user function 5.  The
  reducer applied to the state \<open>0\<close> and \<open>{type: 'INC'}\<close> returns \<open>1\<close>, but after
  \<open>dispatch({type: 'INC'})\<close> has returned \<open>getState()\<close> returns \<open>2\<close>: the listener
  has dispatched once more.
\<close>

theorem listener_dispatch_changes_state:
  "\<not> isDispatching redispatching \<and>
   isPlainObject (heap redispatching) (Obj 0) \<and>
   get_prop (heap redispatching) (Obj 0) ''type'' = Inr (String ''INC'') \<and>
   call_fn 3 example_funs (currentReducer redispatching) [currentState redispatching, Obj 0]
     (redispatching\<lparr>isDispatching := True\<rparr>) =
       (Some (Inr (Number 1)), redispatching\<lparr>isDispatching := True\<rparr>) \<and>
   dispatch 20 example_funs (Obj 0) redispatching =
     (Some (Inr (Obj 0)), redispatching\<lparr>currentState := Number 2\<rparr>) \<and>
   getState (snd (dispatch 20 example_funs (Obj 0) redispatching)) = Number 2"
  by code_simp

text \<open>
  The scenario of the specification: a store created with the counter reducer, then
  \<open>{type: 'INC'}\<close> dispatched three times; \<open>getState()\<close> returns \<open>3\<close>.
\<close>

lemma counter_three_increments:
  "createStore 10 counter_funs [ping] (Function (User 0)) Undefined Undefined = Created
     \<lparr>heap = [ping, init_action], currentReducer = Function (User 0), currentState = Number 0,
      arrays = [[]], currentListeners = 0, nextListeners = 0, isDispatching = False,
      subscriptions = []\<rparr> \<and>
   getState (snd (dispatch 10 counter_funs (Obj 0) (snd (dispatch 10 counter_funs (Obj 0)
     (snd (dispatch 10 counter_funs (Obj 0)
       \<lparr>heap = [ping, init_action], currentReducer = Function (User 0), currentState = Number 0,
        arrays = [[]], currentListeners = 0, nextListeners = 0, isDispatching = False,
        subscriptions = []\<rparr>)))))) = Number 3"
  by code_simp

text \<open>
  C2.  \<open>dispatch\<close> of a value that is not a plain object, or of a plain object whose
  \<open>type\<close> is \<open>undefined\<close> (absent or set to \<open>undefined\<close>), throws, and the store
  afterwards is the store before.  The outcome is the same for every table of user
  functions and every \<open>currentReducer\<close>, and a reducer that ran could have changed the
  store (the heap, the subscriptions): the exception is thrown before the reducer is
  invoked.
\<close>

theorem dispatch_rejects_malformed_action:
  "(\<not> isPlainObject (heap s) action \<longrightarrow>
      dispatch (Suc n) fs action s = (Some (Inl (Error msg_plain)), s)) \<and>
   (isPlainObject (heap s) action \<and> get_prop (heap s) action ''type'' = Inr Undefined \<longrightarrow>
      dispatch (Suc n) fs action s = (Some (Inl (Error msg_type)), s))"
  by (simp add: dispatch_Suc)

text \<open>A number, a function, and a plain object without \<open>type\<close>.\<close>

theorem dispatch_rejects_malformed_action_witness:
  "\<not> isPlainObject (heap counter_store) (Number 5) \<and>
   dispatch (Suc 0) example_funs (Number 5) counter_store =
     (Some (Inl (Error msg_plain)), counter_store) \<and>
   \<not> isPlainObject (heap counter_store) (Function (User 0)) \<and>
   dispatch (Suc 0) example_funs (Function (User 0)) counter_store =
     (Some (Inl (Error msg_plain)), counter_store) \<and>
   isPlainObject (heap observed) (Obj 1) \<and>
   get_prop (heap observed) (Obj 1) ''type'' = Inr Undefined \<and>
   dispatch (Suc 0) example_funs (Obj 1) observed = (Some (Inl (Error msg_type)), observed)"
proof -
  have a: "\<not> isPlainObject (heap counter_store) (Number 5)" by simp
  have b: "\<not> isPlainObject (heap counter_store) (Function (User 0))" by simp
  have c: "isPlainObject (heap observed) (Obj 1)" by code_simp
  have d: "get_prop (heap observed) (Obj 1) ''type'' = Inr Undefined" by code_simp
  from a b c d
    dispatch_rejects_malformed_action[of counter_store "Number 5" 0 example_funs]
    dispatch_rejects_malformed_action[of counter_store "Function (User 0)" 0 example_funs]
    dispatch_rejects_malformed_action[of observed "Obj 1" 0 example_funs]
  show ?thesis by blast
qed

text \<open>
  C3.  For a well-formed action and a store \<open>s\<close>:
  (1) \<open>dispatch\<close> called while \<open>isDispatching\<close> is set throws
  \<open>Reducers may not dispatch actions.\<close> and leaves the store as it was;
  (2) user code that calls \<open>dispatch\<close> while the flag is set gets that exception as
  the outcome of the call and goes on in the unchanged store;
  (3) whatever is executed from a store with the flag set ends with the flag still set
  and \<open>currentState\<close> unchanged, so (1) and (2) apply at every point inside a reducer;
  (4) \<open>dispatch\<close> on an idle store calls the reducer on the store with the flag set;
  when the reducer throws, the exception leaves \<open>dispatch\<close> with the flag cleared and
  \<open>currentState\<close> as before; when it returns, the flag is cleared before the first
  listener runs, so that the listeners run (and may dispatch) in an idle store;
  (5) a dispatch that starts with the flag clear and finishes, by returning or by
  throwing (the reducer's exception or a listener's), ends with the flag clear, so that
  the next dispatch is not rejected.
\<close>

theorem reducers_may_not_dispatch:
  assumes "isPlainObject (heap s) action"
      and "get_prop (heap s) action ''type'' = Inr ty" and "typeof ty \<noteq> ''undefined''"
    shows "(isDispatching s \<longrightarrow>
              dispatch (Suc n) fs action s = (Some (Inl (Error msg_reducer_dispatch)), s)) \<and>
           (\<forall>k. isDispatching s \<longrightarrow>
              run (Suc (Suc (Suc n))) fs (Do (Dispatch action) k) s =
                run (Suc (Suc n)) fs (k (Inl (Error msg_reducer_dispatch))) s) \<and>
           (\<forall>m t r s'. isDispatching s \<longrightarrow> exec m fs t s = (Some r, s') \<longrightarrow>
              isDispatching s' \<and> currentState s' = currentState s) \<and>
           (\<not> isDispatching s \<longrightarrow>
              dispatch (Suc n) fs action s =
                (case call_fn n fs (currentReducer s) [currentState s, action]
                        (s\<lparr>isDispatching := True\<rparr>) of
                   (None, s1) \<Rightarrow> (None, s1)
                 | (Some (Inl e), s1) \<Rightarrow> (Some (Inl e), s1\<lparr>isDispatching := False\<rparr>)
                 | (Some (Inr v), s1) \<Rightarrow>
                     (case listeners_loop n fs (nextListeners s1) 0
                             (s1\<lparr>currentState := v, isDispatching := False,
                                 currentListeners := nextListeners s1\<rparr>) of
                        (Some (Inr _), s4) \<Rightarrow> (Some (Inr action), s4)
                      | (r, s4) \<Rightarrow> (r, s4)))) \<and>
           (\<forall>e s1. \<not> isDispatching s \<longrightarrow>
              call_fn n fs (currentReducer s) [currentState s, action] (s\<lparr>isDispatching := True\<rparr>)
                = (Some (Inl e), s1) \<longrightarrow>
              dispatch (Suc n) fs action s = (Some (Inl e), s1\<lparr>isDispatching := False\<rparr>) \<and>
              currentState (s1\<lparr>isDispatching := False\<rparr>) = currentState s) \<and>
           (\<forall>m r s'. \<not> isDispatching s \<longrightarrow> dispatch m fs action s = (Some r, s') \<longrightarrow>
              \<not> isDispatching s')"
proof (intro conjI allI impI)
  assume "isDispatching s"
  with assms show "dispatch (Suc n) fs action s = (Some (Inl (Error msg_reducer_dispatch)), s)"
    by (simp add: dispatch_Suc)
next
  fix k
  assume "isDispatching s"
  with assms have "dispatch (Suc n) fs action s = (Some (Inl (Error msg_reducer_dispatch)), s)"
    by (simp add: dispatch_Suc)
  then show "run (Suc (Suc (Suc n))) fs (Do (Dispatch action) k) s =
      run (Suc (Suc n)) fs (k (Inl (Error msg_reducer_dispatch))) s"
    by (simp add: store_call_Suc)
next
  fix m t r s'
  assume "isDispatching s" and "exec m fs t s = (Some r, s')"
  then show "isDispatching s'" and "currentState s' = currentState s"
    using flag_inv by blast+
next
  assume "\<not> isDispatching s"
  with assms show "dispatch (Suc n) fs action s =
      (case call_fn n fs (currentReducer s) [currentState s, action] (s\<lparr>isDispatching := True\<rparr>) of
         (None, s1) \<Rightarrow> (None, s1)
       | (Some (Inl e), s1) \<Rightarrow> (Some (Inl e), s1\<lparr>isDispatching := False\<rparr>)
       | (Some (Inr v), s1) \<Rightarrow>
           (case listeners_loop n fs (nextListeners s1) 0
                   (s1\<lparr>currentState := v, isDispatching := False,
                       currentListeners := nextListeners s1\<rparr>) of
              (Some (Inr _), s4) \<Rightarrow> (Some (Inr action), s4)
            | (r, s4) \<Rightarrow> (r, s4)))"
    by (simp add: dispatch_Suc)
next
  fix e s1
  assume idle: "\<not> isDispatching s"
     and red: "call_fn n fs (currentReducer s) [currentState s, action] (s\<lparr>isDispatching := True\<rparr>)
                = (Some (Inl e), s1)"
  from idle red assms
  show "dispatch (Suc n) fs action s = (Some (Inl e), s1\<lparr>isDispatching := False\<rparr>)"
    by (simp add: dispatch_Suc)
  from flag_inv[OF red[unfolded call_fn_def]]
  show "currentState (s1\<lparr>isDispatching := False\<rparr>) = currentState s" by simp
next
  fix m r s'
  assume "\<not> isDispatching s" and "dispatch m fs action s = (Some r, s')"
  then show "\<not> isDispatching s'"
    using flag_inv[of m fs "DispatchT action" s r s'] by (simp add: dispatch_def)
qed

text \<open>
  User function 3 is a reducer that dispatches and catches the exception: its call to
  \<open>dispatch\<close> fails, the state it computes is \<open>'caught'\<close>, and the flag is clear
  afterwards.  User function 5 is a listener that dispatches: on the store
  \<open>redispatching\<close> the reducer runs with the flag set, the listener's own dispatch is
  accepted, and the state ends at \<open>2\<close>.
\<close>

theorem reducers_may_not_dispatch_witness:
  "isPlainObject (heap dispatching_reducer) (Obj 0) \<and>
   get_prop (heap dispatching_reducer) (Obj 0) ''type'' = Inr (String ''INC'') \<and>
   typeof (String ''INC'') \<noteq> ''undefined'' \<and>
   isDispatching (dispatching_reducer\<lparr>isDispatching := True\<rparr>) \<and>
   dispatch (Suc 0) example_funs (Obj 0) (dispatching_reducer\<lparr>isDispatching := True\<rparr>) =
     (Some (Inl (Error msg_reducer_dispatch)), dispatching_reducer\<lparr>isDispatching := True\<rparr>) \<and>
   run 3 example_funs (example_funs 3 [Number 0, Obj 0]) (dispatching_reducer\<lparr>isDispatching := True\<rparr>) =
     run 2 example_funs (Return (String ''caught'')) (dispatching_reducer\<lparr>isDispatching := True\<rparr>) \<and>
   exec 9 example_funs (CallFnT (Function (User 3)) [Number 0, Obj 0])
     (dispatching_reducer\<lparr>isDispatching := True\<rparr>) =
     (Some (Inr (String ''caught'')), dispatching_reducer\<lparr>isDispatching := True\<rparr>) \<and>
   \<not> isDispatching dispatching_reducer \<and>
   dispatch 10 example_funs (Obj 0) dispatching_reducer =
     (Some (Inr (Obj 0)), dispatching_reducer\<lparr>currentState := String ''caught''\<rparr>) \<and>
   \<not> isDispatching (dispatching_reducer\<lparr>currentState := String ''caught''\<rparr>) \<and>
   \<not> isDispatching redispatching \<and>
   isPlainObject (heap redispatching) (Obj 0) \<and>
   get_prop (heap redispatching) (Obj 0) ''type'' = Inr (String ''INC'') \<and>
   call_fn 19 example_funs (currentReducer redispatching) [currentState redispatching, Obj 0]
     (redispatching\<lparr>isDispatching := True\<rparr>) =
       (Some (Inr (Number 1)), redispatching\<lparr>isDispatching := True\<rparr>) \<and>
   listeners_loop 19 example_funs 0 0 (redispatching\<lparr>currentState := Number 1\<rparr>) =
     (Some (Inr Undefined), redispatching\<lparr>currentState := Number 2\<rparr>) \<and>
   dispatch 20 example_funs (Obj 0) redispatching =
     (Some (Inr (Obj 0)), redispatching\<lparr>currentState := Number 2\<rparr>)"
proof -
  let ?d = "dispatching_reducer\<lparr>isDispatching := True\<rparr>"
  have p: "isPlainObject (heap dispatching_reducer) (Obj 0)" by code_simp
  have ty: "get_prop (heap dispatching_reducer) (Obj 0) ''type'' = Inr (String ''INC'')"
    by code_simp
  have d: "typeof (String ''INC'') \<noteq> ''undefined''" by simp
  have p': "isPlainObject (heap ?d) (Obj 0)" by code_simp
  have ty': "get_prop (heap ?d) (Obj 0) ''type'' = Inr (String ''INC'')" by code_simp
  have f: "isDispatching ?d" by simp
  have e: "exec 9 example_funs (CallFnT (Function (User 3)) [Number 0, Obj 0]) ?d =
     (Some (Inr (String ''caught'')), ?d)" by code_simp
  have i: "\<not> isDispatching dispatching_reducer" by (simp add: dispatching_reducer_def)
  have r: "dispatch 10 example_funs (Obj 0) dispatching_reducer =
     (Some (Inr (Obj 0)), dispatching_reducer\<lparr>currentState := String ''caught''\<rparr>)"
    by code_simp
  have body: "example_funs 3 [Number 0, Obj 0] =
      Do (Dispatch (Obj 0)) (\<lambda>r. case r of Inl e \<Rightarrow> Return (String ''caught'') | Inr v \<Rightarrow> Return v)"
    by (simp add: example_funs_def)
  note inside = reducers_may_not_dispatch[OF p' ty' d, of 0 example_funs]
  from inside f
  have 1: "dispatch (Suc 0) example_funs (Obj 0) ?d = (Some (Inl (Error msg_reducer_dispatch)), ?d)"
    by blast
  from inside f
  have "run (Suc (Suc (Suc 0))) example_funs (example_funs 3 [Number 0, Obj 0]) ?d =
      run (Suc (Suc 0)) example_funs (Return (String ''caught'')) ?d"
    unfolding body by simp
  moreover have "Suc (Suc (Suc 0)) = 3" "Suc (Suc 0) = 2" by simp_all
  ultimately have 2: "run 3 example_funs (example_funs 3 [Number 0, Obj 0]) ?d =
      run 2 example_funs (Return (String ''caught'')) ?d" by simp
  from reducers_may_not_dispatch[OF p ty d, of 0 example_funs] i r
  have 3: "\<not> isDispatching (dispatching_reducer\<lparr>currentState := String ''caught''\<rparr>)"
    by blast
  have i2: "\<not> isDispatching redispatching" by (simp add: redispatching_def)
  have p2: "isPlainObject (heap redispatching) (Obj 0)" by code_simp
  have ty2: "get_prop (heap redispatching) (Obj 0) ''type'' = Inr (String ''INC'')" by code_simp
  have c2: "call_fn 19 example_funs (currentReducer redispatching) [currentState redispatching, Obj 0]
     (redispatching\<lparr>isDispatching := True\<rparr>) =
       (Some (Inr (Number 1)), redispatching\<lparr>isDispatching := True\<rparr>)" by code_simp
  have l2: "listeners_loop 19 example_funs 0 0 (redispatching\<lparr>currentState := Number 1\<rparr>) =
     (Some (Inr Undefined), redispatching\<lparr>currentState := Number 2\<rparr>)" by code_simp
  have n2: "nextListeners redispatching = 0"
    and u2: "redispatching\<lparr>currentState := Number 1, isDispatching := False,
               currentListeners := 0\<rparr> = redispatching\<lparr>currentState := Number 1\<rparr>"
    by (simp_all add: redispatching_def)
  from reducers_may_not_dispatch[OF p2 ty2 d, of 19 example_funs] i2
  have "dispatch (Suc 19) example_funs (Obj 0) redispatching =
     (Some (Inr (Obj 0)), redispatching\<lparr>currentState := Number 2\<rparr>)"
    unfolding c2 by (simp add: n2 u2 l2)
  moreover have "Suc 19 = 20" by simp
  ultimately have 4: "dispatch 20 example_funs (Obj 0) redispatching =
     (Some (Inr (Obj 0)), redispatching\<lparr>currentState := Number 2\<rparr>)" by simp
  from p ty d f 1 2 e i r 3 i2 p2 ty2 c2 l2 4 show ?thesis by blast
qed

text \<open>
  C10.  The observable's \<open>subscribe(observer)\<close> throws a \<open>TypeError\<close> and leaves the
  store as it was when \<open>typeof observer\<close> is not \<open>'object'\<close>; for \<open>null\<close> (whose
  \<open>typeof\<close> is \<open>'object'\<close>) reading \<open>observer.next\<close> throws a \<open>TypeError\<close> as
  well.  For an object whose \<open>next\<close> is a function, the call first invokes that
  function once, on the store as it is, with the current state as its only argument;
  only if that call returns is the listener registered and the subscription object
  returned.
\<close>

theorem observable_subscribe_spec:
  "(typeof observer \<noteq> ''object'' \<longrightarrow>
      observable_subscribe (Suc n) fs observer s =
        (Some (Inl (TypeError ''Expected the observer to be an object.'')), s)) \<and>
   (\<exists>e. observable_subscribe (Suc (Suc n)) fs Null s = (Some (Inl (TypeError e)), s)) \<and>
   (typeof observer = ''object'' \<and> get_prop (heap s) observer ''next'' = Inr (Function f) \<longrightarrow>
      observable_subscribe (Suc (Suc n)) fs observer s =
        (case call_fn n fs (Function f) [currentState s] s of
           (Some (Inr _), s1) \<Rightarrow>
             (case subscribe (Function (ObserveState (length (subscriptions s1)) observer)) s1 of
                (Inl e, s2) \<Rightarrow> (Some (Inl e), s2)
              | (Inr unsub, s2) \<Rightarrow>
                  (case alloc (heap s2) \<lparr>kind = PlainObject, properties = [(''unsubscribe'', unsub)]\<rparr> of
                     (subscription, h') \<Rightarrow> (Some (Inr subscription), s2\<lparr>heap := h'\<rparr>)))
         | (r, s1) \<Rightarrow> (r, s1)))"
  by (auto simp: observable_subscribe_Suc observeState_Suc split: prod.splits option.splits sum.splits)

text \<open>
  A number is rejected; for the observer at address 1, whose \<open>next\<close> is user function
  4, the object that function allocates holds the state \<open>7\<close> it was called with.
\<close>

theorem observable_subscribe_spec_witness:
  "typeof (Number 3) \<noteq> ''object'' \<and>
   observable_subscribe (Suc 0) example_funs (Number 3) observed =
     (Some (Inl (TypeError ''Expected the observer to be an object.'')), observed) \<and>
   typeof (Obj 1) = ''object'' \<and>
   get_prop (heap observed) (Obj 1) ''next'' = Inr (Function (User 4)) \<and>
   call_fn 8 example_funs (Function (User 4)) [currentState observed] observed =
     (Some (Inr Undefined),
      observed\<lparr>heap := heap observed @
        [\<lparr>kind = InstanceObject, properties = [(''seen'', Number 7)]\<rparr>]\<rparr>) \<and>
   observable_subscribe (Suc (Suc 8)) example_funs (Obj 1) observed =
     (Some (Inr (Obj 3)),
      observed\<lparr>heap := heap observed @
        [\<lparr>kind = InstanceObject, properties = [(''seen'', Number 7)]\<rparr>,
         \<lparr>kind = PlainObject, properties = [(''unsubscribe'', Function (Unsubscribe 0))]\<rparr>],
        arrays := [[], [Function (ObserveState 0 (Obj 1))]],
        nextListeners := 1,
        subscriptions := [(Function (ObserveState 0 (Obj 1)), True)]\<rparr>)"
proof -
  have a: "typeof (Number 3) \<noteq> ''object''" by simp
  have b: "typeof (Obj 1) = ''object''" by simp
  have c: "get_prop (heap observed) (Obj 1) ''next'' = Inr (Function (User 4))" by code_simp
  have d: "call_fn 8 example_funs (Function (User 4)) [currentState observed] observed =
     (Some (Inr Undefined),
      observed\<lparr>heap := heap observed @
        [\<lparr>kind = InstanceObject, properties = [(''seen'', Number 7)]\<rparr>]\<rparr>)" by code_simp
  have e: "observable_subscribe (Suc (Suc 8)) example_funs (Obj 1) observed =
     (Some (Inr (Obj 3)),
      observed\<lparr>heap := heap observed @
        [\<lparr>kind = InstanceObject, properties = [(''seen'', Number 7)]\<rparr>,
         \<lparr>kind = PlainObject, properties = [(''unsubscribe'', Function (Unsubscribe 0))]\<rparr>],
        arrays := [[], [Function (ObserveState 0 (Obj 1))]],
        nextListeners := 1,
        subscriptions := [(Function (ObserveState 0 (Obj 1)), True)]\<rparr>)" by code_simp
  from a observable_subscribe_spec[of "Number 3" 0 example_funs observed]
  have f: "observable_subscribe (Suc 0) example_funs (Number 3) observed =
     (Some (Inl (TypeError ''Expected the observer to be an object.'')), observed)" by blast
  from a f b c d e show ?thesis by blast
qed


section \<open>Listener snapshots\<close>

text \<open>
  Removing the element at its first index is \<open>remove1\<close>; \<open>subscribe\<close> appends to and
  \<open>unsubscribe\<close> removes from the \<open>nextListeners\<close> array.
\<close>

lemma indexOf_bounds:
  "l \<in> set xs \<Longrightarrow> 0 \<le> indexOf xs l \<and> indexOf xs l < int (length xs)"
  by (induction xs) (auto simp: Let_def)

lemma splice1_indexOf:
  "l \<in> set xs \<Longrightarrow> splice1 xs (indexOf xs l) = remove1 l xs"
proof (induction xs)
  case Nil
  then show ?case by simp
next
  case (Cons y ys)
  show ?case
  proof (cases "y = l")
    case True
    then show ?thesis by (simp add: splice1_def)
  next
    case False
    with Cons.prems have mem: "l \<in> set ys" by simp
    from indexOf_bounds[OF mem] obtain j where j: "indexOf ys l = int j" and jl: "j < length ys"
      by (metis nat_less_iff zero_le_imp_eq_int of_nat_less_iff)
    from Cons.IH[OF mem] j jl have "take j ys @ drop (Suc j) ys = remove1 l ys"
      by (simp add: splice1_def Let_def min_def)
    with False j jl show ?thesis
      by (simp add: splice1_def Let_def min_def nat_add_distrib)
  qed
qed

lemma subscribe_next:
  "typeof l = ''function'' \<Longrightarrow> valid_arrays s \<Longrightarrow> subscribe l s = (r, s') \<Longrightarrow>
     array_at s' (nextListeners s') = array_at s (nextListeners s) @ [l]"
  by (auto simp: subscribe_def ensureCanMutateNextListeners_def Let_def valid_arrays_def
      array_at_def nth_append split: if_splits)

lemma unsubscribe_next:
  "sub < length (subscriptions s) \<Longrightarrow> subscriptions s ! sub = (l, True) \<Longrightarrow> valid_arrays s \<Longrightarrow>
     l \<in> set (array_at s (nextListeners s)) \<Longrightarrow> unsubscribe sub s = (r, s') \<Longrightarrow>
     array_at s' (nextListeners s') = remove1 l (array_at s (nextListeners s))"
  by (auto simp: unsubscribe_def ensureCanMutateNextListeners_def Let_def valid_arrays_def
      array_at_def nth_append splice1_indexOf split: if_splits)

text \<open>
  The \<open>nextListeners\<close> array and the subscriptions stay consistent, whatever is
  executed, and are consistent in a store made by \<open>createStore\<close>.
\<close>

lemma active_update:
  assumes "i < length xs" and "xs ! i = (l, True)"
  shows "mset (map fst (filter snd (xs[i := (l, False)]))) =
           mset (map fst (filter snd xs)) - {#l#}"
  using assms
proof (induction xs arbitrary: i)
  case Nil
  then show ?case by simp
next
  case (Cons x xs)
  show ?case
  proof (cases i)
    case 0
    with Cons.prems show ?thesis by simp
  next
    case (Suc j)
    with Cons.prems have j: "j < length xs" "xs ! j = (l, True)" by simp_all
    then have "(l, True) \<in> set (filter snd xs)"
      using nth_mem[of j xs] by simp
    then have "l \<in># mset (map fst (filter snd xs))" by force
    with Cons.IH[OF j] Suc show ?thesis by (cases x) auto
  qed
qed

lemma subscribe_consistent:
  "subscribe l s = (r, s') \<Longrightarrow> listeners_consistent s \<Longrightarrow> listeners_consistent s'"
  by (auto simp: subscribe_def ensureCanMutateNextListeners_def Let_def listeners_consistent_def
      active_listeners_def valid_arrays_def array_at_def nth_append split: if_splits)

lemma unsubscribe_consistent:
  assumes "unsubscribe sub s = (r, s')" and "listeners_consistent s"
  shows "listeners_consistent s'"
proof (cases "sub < length (subscriptions s)")
  case False
  with assms show ?thesis by (simp add: unsubscribe_def)
next
  case True
  obtain l b where lb: "subscriptions s ! sub = (l, b)" by (cases "subscriptions s ! sub")
  show ?thesis
  proof (cases b)
    case False
    with assms True lb show ?thesis by (simp add: unsubscribe_def)
  next
    case True
    with lb have act: "subscriptions s ! sub = (l, True)" by simp
    have va: "valid_arrays s" using assms(2) by (simp add: listeners_consistent_def)
    have "(l, True) \<in> set (filter snd (subscriptions s))"
      using nth_mem[OF \<open>sub < length (subscriptions s)\<close>] act by simp
    then have "l \<in># active_listeners s" by (force simp: active_listeners_def)
    then have mem: "l \<in> set (array_at s (nextListeners s))"
      using assms(2) by (metis listeners_consistent_def set_mset_mset)
    have "snapshot_ok (currentListeners s) s"
      using va by (simp add: snapshot_ok_def valid_arrays_def)
    from unsubscribe_snapshot[OF assms(1) this]
    have va': "valid_arrays s'" by (simp add: snapshot_ok_def)
    have "array_at s' (nextListeners s') = remove1 l (array_at s (nextListeners s))"
      using unsubscribe_next[OF \<open>sub < length (subscriptions s)\<close> act va mem assms(1)] .
    moreover have "subscriptions s' = (subscriptions s)[sub := (l, False)]"
      using assms(1) \<open>sub < length (subscriptions s)\<close> act
      by (auto simp: unsubscribe_def Let_def ensureCanMutateNextListeners_def)
    ultimately show ?thesis
      using va' assms(2) active_update[OF \<open>sub < length (subscriptions s)\<close> act]
      by (simp add: listeners_consistent_def active_listeners_def)
  qed
qed

lemma listeners_consistent_upd [simp]:
  "listeners_consistent (s\<lparr>heap := h\<rparr>) = listeners_consistent s"
  "listeners_consistent (s\<lparr>isDispatching := b\<rparr>) = listeners_consistent s"
  "listeners_consistent (s\<lparr>currentState := v\<rparr>) = listeners_consistent s"
  "listeners_consistent (s\<lparr>currentReducer := f\<rparr>) = listeners_consistent s"
  by (simp_all add: listeners_consistent_def valid_arrays_def active_listeners_def)

lemma listeners_consistent_current:
  "listeners_consistent s \<Longrightarrow>
     listeners_consistent
       (s\<lparr>currentState := v, isDispatching := b, currentListeners := nextListeners s\<rparr>)"
  by (simp add: listeners_consistent_def valid_arrays_def active_listeners_def)

lemma consistent_inv:
  "exec n fs t s = (r, s') \<Longrightarrow> listeners_consistent s \<Longrightarrow> listeners_consistent s'"
proof (induction n arbitrary: t s r s')
  case 0
  then show ?case by (simp add: exec.simps)
next
  case (Suc n)
  note IH = Suc.IH
  show ?case
  proof (cases t)
    case (RunT p)
    then show ?thesis using Suc.prems
      by (auto simp: exec.simps split: prog.splits prod.splits option.splits dest!: IH)
  next
    case (CallFnT f args)
    then show ?thesis using Suc.prems
      by (auto simp: exec.simps split: jsval.splits fn.splits prod.splits option.splits
          dest!: IH unsubscribe_consistent)
  next
    case (StoreCallT c)
    then show ?thesis using Suc.prems
      by (auto simp: exec.simps split: call.splits prod.splits option.splits
          dest!: IH subscribe_consistent)
  next
    case (DispatchT act)
    then show ?thesis using Suc.prems
      by (auto simp: exec.simps listeners_consistent_current
          split: if_splits sum.splits prod.splits option.splits dest!: IH)
  next
    case (ListenersLoopT b i)
    then show ?thesis using Suc.prems
      by (auto simp: exec.simps split: if_splits sum.splits prod.splits option.splits
          dest!: IH)
  next
    case (ReplaceReducerT x6)
    then show ?thesis using Suc.prems
      by (auto simp: exec.simps alloc_def split: if_splits sum.splits prod.splits option.splits
          dest!: IH)
  next
    case (ObserveStateT x7)
    then show ?thesis using Suc.prems
      by (auto simp: exec.simps split: if_splits sum.splits prod.splits option.splits
          dest!: IH)
  next
    case (ObservableSubscribeT x8)
    then show ?thesis using Suc.prems
      by (auto simp: exec.simps alloc_def split: if_splits sum.splits prod.splits option.splits
          dest!: IH subscribe_consistent)
  qed
qed


lemma createStore_consistent:
  assumes "createStore n fs h reducer preloadedState enhancer = Created s"
  shows "listeners_consistent s"
proof -
  let ?s0 = "\<lambda>st h'. \<lparr>heap = h', currentReducer = reducer, currentState = st,
      arrays = [[]], currentListeners = 0, nextListeners = 0,
      isDispatching = False, subscriptions = []\<rparr>"
  have ok: "listeners_consistent (?s0 st h')" for st h'
    by (simp add: listeners_consistent_def valid_arrays_def active_listeners_def array_at_def)
  from assms obtain st h' r where "dispatch n fs (Obj (length h)) (?s0 st h') = (r, s)"
    by (auto simp: createStore_def Let_def alloc_def
        split: if_splits prod.splits option.splits sum.splits)
  from consistent_inv[OF this[unfolded dispatch_def] ok] show ?thesis .
qed

text \<open>
  C7 (as amended).  In a store whose listener arrays are consistent with its
  subscriptions: (1) a dispatch whose reducer returns invokes exactly the listeners
  that are in the \<open>nextListeners\<close> array when the reducer has returned (its snapshot),
  each once and in order, until one throws; the snapshot is a fixed list, so the
  \<open>subscribe\<close> and \<open>unsubscribe\<close> calls made while the dispatch iterates do not
  change which listeners it invokes, and a listener of the snapshot that is
  unsubscribed before its turn is still invoked by this dispatch; (2) \<open>subscribe\<close>
  appends the listener to the \<open>nextListeners\<close> array, and (3) \<open>unsubscribe\<close> of a
  live subscription removes one entry of its listener from the \<open>nextListeners\<close>
  array; both leave \<open>currentListeners\<close> and the array it refers to as they were, so
  these calls take effect from the next dispatch on, which takes its snapshot from
  \<open>nextListeners\<close>.
\<close>

theorem listener_snapshot:
  assumes lc: "listeners_consistent s"
  shows "(\<not> isDispatching s \<and> isPlainObject (heap s) action \<and>
          get_prop (heap s) action ''type'' = Inr ty \<and> typeof ty \<noteq> ''undefined'' \<and>
          call_fn n fs (currentReducer s) [currentState s, action] (s\<lparr>isDispatching := True\<rparr>)
            = (Some (Inr v), s1) \<longrightarrow>
          dispatch (Suc n) fs action s =
            (case invoke_all n fs (array_at s1 (nextListeners s1))
                    (s1\<lparr>currentState := v, isDispatching := False,
                        currentListeners := nextListeners s1\<rparr>) of
               (Some (Inr _), s4) \<Rightarrow> (Some (Inr action), s4)
             | (r, s4) \<Rightarrow> (r, s4))) \<and>
         (\<forall>l r s'. typeof l = ''function'' \<longrightarrow> subscribe l s = (r, s') \<longrightarrow>
            array_at s' (nextListeners s') = array_at s (nextListeners s) @ [l] \<and>
            currentListeners s' = currentListeners s \<and>
            array_at s' (currentListeners s') = array_at s (currentListeners s)) \<and>
         (\<forall>sub l r s'. sub < length (subscriptions s) \<longrightarrow> subscriptions s ! sub = (l, True) \<longrightarrow>
            unsubscribe sub s = (r, s') \<longrightarrow>
            array_at s' (nextListeners s') = remove1 l (array_at s (nextListeners s)) \<and>
            currentListeners s' = currentListeners s \<and>
            array_at s' (currentListeners s') = array_at s (currentListeners s))"
proof (intro conjI allI impI)
  have va: "valid_arrays s" using lc by (simp add: listeners_consistent_def)
  assume h: "\<not> isDispatching s \<and> isPlainObject (heap s) action \<and>
          get_prop (heap s) action ''type'' = Inr ty \<and> typeof ty \<noteq> ''undefined'' \<and>
          call_fn n fs (currentReducer s) [currentState s, action] (s\<lparr>isDispatching := True\<rparr>)
            = (Some (Inr v), s1)"
  then have red: "call_fn n fs (currentReducer s) [currentState s, action]
      (s\<lparr>isDispatching := True\<rparr>) = (Some (Inr v), s1)" by simp
  have "snapshot_ok (currentListeners s) (s\<lparr>isDispatching := True\<rparr>)"
    using va by (simp add: snapshot_ok_def valid_arrays_def)
  from snapshot_inv[OF red[unfolded call_fn_def] this]
  have va1: "valid_arrays s1" by (simp add: snapshot_ok_def)
  let ?s3 = "s1\<lparr>currentState := v, isDispatching := False, currentListeners := nextListeners s1\<rparr>"
  have "snapshot_ok (nextListeners s1) ?s3"
    using va1 by (simp add: snapshot_ok_def valid_arrays_def)
  from loop_is_invoke_all[OF this, of n fs 0]
  have "listeners_loop n fs (nextListeners s1) 0 ?s3 =
          invoke_all n fs (array_at s1 (nextListeners s1)) ?s3"
    by simp
  then show "dispatch (Suc n) fs action s =
            (case invoke_all n fs (array_at s1 (nextListeners s1)) ?s3 of
               (Some (Inr _), s4) \<Rightarrow> (Some (Inr action), s4)
             | (r, s4) \<Rightarrow> (r, s4))"
    using h by (simp add: dispatch_Suc)
next
  fix l r s'
  assume f: "typeof l = ''function''" and sub: "subscribe l s = (r, s')"
  have va: "valid_arrays s" using lc by (simp add: listeners_consistent_def)
  have ok: "snapshot_ok (currentListeners s) s"
    using va by (simp add: snapshot_ok_def valid_arrays_def)
  show "array_at s' (nextListeners s') = array_at s (nextListeners s) @ [l]"
    using subscribe_next[OF f va sub] .
  show "currentListeners s' = currentListeners s"
    using subscribe_frame[OF sub] by simp
  then show "array_at s' (currentListeners s') = array_at s (currentListeners s)"
    using subscribe_snapshot[OF sub ok] by simp
next
  fix sub l r s'
  assume a: "sub < length (subscriptions s)" "subscriptions s ! sub = (l, True)"
    and u: "unsubscribe sub s = (r, s')"
  have va: "valid_arrays s" using lc by (simp add: listeners_consistent_def)
  have "(l, True) \<in> set (filter snd (subscriptions s))"
    using nth_mem[OF a(1)] a(2) by simp
  then have "l \<in># active_listeners s" by (force simp: active_listeners_def)
  then have mem: "l \<in> set (array_at s (nextListeners s))"
    using lc by (metis listeners_consistent_def set_mset_mset)
  have ok: "snapshot_ok (currentListeners s) s"
    using va by (simp add: snapshot_ok_def valid_arrays_def)
  show "array_at s' (nextListeners s') = remove1 l (array_at s (nextListeners s))"
    using unsubscribe_next[OF a(1,2) va mem u] .
  show "currentListeners s' = currentListeners s"
    using unsubscribe_frame[OF u] by simp
  then show "array_at s' (currentListeners s') = array_at s (currentListeners s)"
    using unsubscribe_snapshot[OF u ok] by simp
qed

text \<open>
  The store \<open>two_listeners\<close>: a dispatch invokes user functions 1 and 2; subscribing
  function 2 again appends it, cancelling subscription 1 leaves function 1 only.
\<close>

theorem listener_snapshot_witness:
  "listeners_consistent two_listeners \<and> \<not> isDispatching two_listeners \<and>
   isPlainObject (heap two_listeners) (Obj 0) \<and>
   get_prop (heap two_listeners) (Obj 0) ''type'' = Inr (String ''INC'') \<and>
   typeof (String ''INC'') \<noteq> ''undefined'' \<and>
   call_fn 11 example_funs (currentReducer two_listeners) [currentState two_listeners, Obj 0]
     (two_listeners\<lparr>isDispatching := True\<rparr>) =
     (Some (Inr (Number 1)), two_listeners\<lparr>isDispatching := True\<rparr>) \<and>
   dispatch (Suc 11) example_funs (Obj 0) two_listeners =
     (case invoke_all 11 example_funs [Function (User 1), Function (User 2)]
             (two_listeners\<lparr>currentState := Number 1\<rparr>) of
        (Some (Inr _), s4) \<Rightarrow> (Some (Inr (Obj 0)), s4)
      | (r, s4) \<Rightarrow> (r, s4)) \<and>
   typeof (Function (User 2)) = ''function'' \<and>
   array_at (snd (subscribe (Function (User 2)) two_listeners))
     (nextListeners (snd (subscribe (Function (User 2)) two_listeners))) =
     [Function (User 1), Function (User 2), Function (User 2)] \<and>
   1 < length (subscriptions two_listeners) \<and>
   subscriptions two_listeners ! 1 = (Function (User 2), True) \<and>
   array_at (snd (unsubscribe 1 two_listeners)) (nextListeners (snd (unsubscribe 1 two_listeners))) =
     [Function (User 1)]"
proof -
  let ?t = two_listeners
  have lc: "listeners_consistent ?t"
    by (simp add: listeners_consistent_def valid_arrays_def active_listeners_def array_at_def
        two_listeners_def)
  have i: "\<not> isDispatching ?t" by (simp add: two_listeners_def)
  have p: "isPlainObject (heap ?t) (Obj 0)" by code_simp
  have ty: "get_prop (heap ?t) (Obj 0) ''type'' = Inr (String ''INC'')" by code_simp
  have d: "typeof (String ''INC'') \<noteq> ''undefined''" by simp
  have c: "call_fn 11 example_funs (currentReducer ?t) [currentState ?t, Obj 0]
     (?t\<lparr>isDispatching := True\<rparr>) = (Some (Inr (Number 1)), ?t\<lparr>isDispatching := True\<rparr>)"
    by code_simp
  have a: "array_at (?t\<lparr>isDispatching := True\<rparr>) (nextListeners (?t\<lparr>isDispatching := True\<rparr>)) =
      [Function (User 1), Function (User 2)]" by code_simp
  have s3: "?t\<lparr>isDispatching := True, currentState := Number 1, isDispatching := False,
      currentListeners := nextListeners (?t\<lparr>isDispatching := True\<rparr>)\<rparr> = ?t\<lparr>currentState := Number 1\<rparr>"
    by (simp add: two_listeners_def)
  from listener_snapshot[OF lc, of "Obj 0" "String ''INC''" 11 example_funs "Number 1"
      "?t\<lparr>isDispatching := True\<rparr>"] i p ty d c
  have 1: "dispatch (Suc 11) example_funs (Obj 0) ?t =
     (case invoke_all 11 example_funs [Function (User 1), Function (User 2)]
             (?t\<lparr>currentState := Number 1\<rparr>) of
        (Some (Inr _), s4) \<Rightarrow> (Some (Inr (Obj 0)), s4)
      | (r, s4) \<Rightarrow> (r, s4))"
    unfolding a s3 by blast
  have f: "typeof (Function (User 2)) = ''function''" by simp
  have "subscribe (Function (User 2)) ?t =
      (fst (subscribe (Function (User 2)) ?t), snd (subscribe (Function (User 2)) ?t))" by simp
  with listener_snapshot[OF lc] f
  have 2: "array_at (snd (subscribe (Function (User 2)) ?t))
     (nextListeners (snd (subscribe (Function (User 2)) ?t))) =
     array_at ?t (nextListeners ?t) @ [Function (User 2)]" by blast
  have l: "1 < length (subscriptions ?t)" by (simp add: two_listeners_def)
  have n: "subscriptions ?t ! 1 = (Function (User 2), True)" by (simp add: two_listeners_def)
  have "unsubscribe 1 ?t = (fst (unsubscribe 1 ?t), snd (unsubscribe 1 ?t))" by simp
  with listener_snapshot[OF lc] l n
  have 3: "array_at (snd (unsubscribe 1 ?t)) (nextListeners (snd (unsubscribe 1 ?t))) =
     remove1 (Function (User 2)) (array_at ?t (nextListeners ?t))" by blast
  have a0: "array_at ?t (nextListeners ?t) = [Function (User 1), Function (User 2)]"
    by code_simp
  from lc i p ty d c 1 f 2 l n 3 show ?thesis unfolding a0 by simp
qed

text \<open>
  Counterexample to C7 as written, which says that a listener unsubscribed during a
  dispatch does not fire again in that dispatch.  In \<open>two_listeners\<close> both listeners
  are subscribed; during the dispatch the first listener cancels the subscription of
  the second (user function 2), which is then neither subscribed nor in the
  \<open>nextListeners\<close> array; the loop of the same dispatch goes on from index 1 and
  invokes user function 2 all the same: the object it allocates is on the heap
  afterwards.
\<close>

theorem unsubscribed_listener_is_still_invoked:
  "array_at two_listeners (nextListeners two_listeners) = [Function (User 1), Function (User 2)] \<and>
   subscriptions two_listeners ! 1 = (Function (User 2), True) \<and>
   call_fn 10 example_funs (Function (User 1)) [] (two_listeners\<lparr>currentState := Number 1\<rparr>) =
     (Some (Inr Undefined), after_unsubscribe) \<and>
   subscriptions after_unsubscribe ! 1 = (Function (User 2), False) \<and>
   array_at after_unsubscribe (nextListeners after_unsubscribe) = [Function (User 1)] \<and>
   listeners_loop 10 example_funs 0 1 after_unsubscribe =
     (Some (Inr Undefined), after_unsubscribe\<lparr>heap := [ping, marker]\<rparr>) \<and>
   dispatch 12 example_funs (Obj 0) two_listeners =
     (Some (Inr (Obj 0)), after_unsubscribe\<lparr>heap := [ping, marker]\<rparr>)"
  by code_simp


section \<open>Properties of combineReducers\<close>

lemma get_prop_Obj: "\<exists>v. get_prop h (Obj p) key = Inr v"
  by (simp split: option.splits)

lemma combination_loop_calls:
  assumes "\<forall>(prev, res) \<in> set (slice_calls rs (Obj p) action ns h). \<exists>v. res = Inr v \<and> v \<noteq> Undefined"
  shows "\<exists>h'. combination_loop rs (Obj p) action ns hc h =
           (Inr (hc \<or> (\<exists>(prev, res) \<in> set (slice_calls rs (Obj p) action ns h). res \<noteq> Inr prev)), h')"
  using assms
proof (induction rs arbitrary: hc h)
  case Nil
  then show ?case by simp
next
  case (Cons kr rs)
  obtain key r where kr: "kr = (key, r)" by (cases kr)
  obtain prev where prev: "get_prop h (Obj p) key = Inr prev"
    using get_prop_Obj by blast
  obtain res h1 where call: "r prev action h = (res, h1)" by (cases "r prev action h")
  from Cons.prems kr prev call obtain v where v: "res = Inr v" "v \<noteq> Undefined"
    by (cases res) auto
  let ?h2 = "set_prop h1 ns key v"
  have "\<forall>(prev, res) \<in> set (slice_calls rs (Obj p) action ns ?h2). \<exists>v. res = Inr v \<and> v \<noteq> Undefined"
    using Cons.prems kr prev call v by (auto simp del: get_prop.simps)
  from Cons.IH[OF this, of "hc \<or> v \<noteq> prev"]
  show ?case using kr prev call v by (auto simp del: get_prop.simps)
qed

text \<open>
  C4.  Let the shape assertion have passed, let \<open>state\<close> be an object of the heap, and
  let every sub-reducer that \<open>combination\<close> calls return a defined value.  If each of
  them returns the very value it received as its previous slice, \<open>combination\<close>
  returns the reference \<open>state\<close> itself; if at least one returns a different value,
  it returns the reference of the record it has allocated and filled, which did not
  exist before the call and so differs from \<open>state\<close>.
\<close>

theorem combination_referential_stability:
  assumes "shapeAssertionError c = None" and "p < length h"
      and "\<forall>(prev, res) \<in> set (combination_calls c (Obj p) action h). \<exists>v. res = Inr v \<and> v \<noteq> Undefined"
    shows "fst (combination c (Obj p) action h) =
             Inr (if (\<forall>(prev, res) \<in> set (combination_calls c (Obj p) action h). res = Inr prev)
                  then Obj p else Obj (length h))
           \<and> Obj (length h) \<noteq> Obj p"
proof -
  from combination_loop_calls[OF assms(3)[unfolded combination_calls_def alloc_def, simplified], of False]
  obtain h' where "combination_loop (finalReducers c) (Obj p) action (Obj (length h)) False
      (h @ [empty_object]) =
        (Inr (\<exists>(prev, res) \<in> set (slice_calls (finalReducers c) (Obj p) action (Obj (length h))
           (h @ [empty_object])). res \<noteq> Inr prev), h')"
    by auto
  then show ?thesis using assms(1,2)
    by (auto simp: combination_def combine_slices_def alloc_def combination_calls_def)
qed

text \<open>
  The state \<open>{a: 1, b: null}\<close> at address 2: the action \<open>NOOP\<close> gives back address
  2, the action \<open>INC\<close> gives the new address 3.
\<close>

theorem combination_referential_stability_witness:
  "shapeAssertionError example_combination = None \<and> 2 < length example_heap \<and>
   combination_calls example_combination (Obj 2) (Obj 1) example_heap =
     [(Number 1, Inr (Number 1)), (Null, Inr Null)] \<and>
   fst (combination example_combination (Obj 2) (Obj 1) example_heap) = Inr (Obj 2) \<and>
   combination_calls example_combination (Obj 2) (Obj 0) example_heap =
     [(Number 1, Inr (Number 2)), (Null, Inr Null)] \<and>
   fst (combination example_combination (Obj 2) (Obj 0) example_heap) = Inr (Obj 3) \<and>
   Obj (length example_heap) = Obj 3 \<and>
   snd (combination example_combination (Obj 2) (Obj 0) example_heap) ! 3 =
     \<lparr>kind = PlainObject, properties = [(''a'', Number 2), (''b'', Null)]\<rparr>"
proof -
  have e: "shapeAssertionError example_combination = None"
    by (simp add: example_combination_def)
  have l: "2 < length example_heap" by (simp add: example_heap_def)
  have c1: "combination_calls example_combination (Obj 2) (Obj 1) example_heap =
     [(Number 1, Inr (Number 1)), (Null, Inr Null)]" by code_simp
  have c2: "combination_calls example_combination (Obj 2) (Obj 0) example_heap =
     [(Number 1, Inr (Number 2)), (Null, Inr Null)]" by code_simp
  have n: "Obj (length example_heap) = Obj 3" by (simp add: example_heap_def)
  have d1: "\<forall>(prev, res) \<in> set (combination_calls example_combination (Obj 2) (Obj 1) example_heap).
      \<exists>v. res = Inr v \<and> v \<noteq> Undefined" unfolding c1 by simp
  have d2: "\<forall>(prev, res) \<in> set (combination_calls example_combination (Obj 2) (Obj 0) example_heap).
      \<exists>v. res = Inr v \<and> v \<noteq> Undefined" unfolding c2 by simp
  from combination_referential_stability[OF e l d1]
  have r1: "fst (combination example_combination (Obj 2) (Obj 1) example_heap) = Inr (Obj 2)"
    unfolding c1 by simp
  from combination_referential_stability[OF e l d2]
  have r2: "fst (combination example_combination (Obj 2) (Obj 0) example_heap) = Inr (Obj 3)"
    unfolding c2 n by simp
  have o: "snd (combination example_combination (Obj 2) (Obj 0) example_heap) ! 3 =
     \<lparr>kind = PlainObject, properties = [(''a'', Number 2), (''b'', Null)]\<rparr>" by code_simp
  from e l c1 r1 c2 r2 n o show ?thesis by blast
qed

lemma get_type_init:
  "get_prop (h @ [init_action]) (Obj (length h)) ''type'' = Inr (String ActionTypes_INIT)"
  by (simp add: init_action_def)

lemma get_type_probe:
  "get_prop (h @ [probe_action suffix]) (Obj (length h)) ''type'' = Inr (String (probe_type suffix))"
  by (simp add: probe_action_def)

text \<open>The shape assertion walks past every reducer that passes its two probes.\<close>

lemma assertReducerShape_passing:
  assumes "\<forall>j < length pre. passes_probes (snd (pre ! j)) (rand (i + j))"
  shows "\<exists>h'. assertReducerShape (pre @ rest) rand i h =
           assertReducerShape rest rand (i + length pre) h'"
  using assms
proof (induction pre arbitrary: i h)
  case Nil
  then show ?case by auto
next
  case (Cons kr pre)
  obtain k r where kr: "kr = (k, r)" by (cases kr)
  from Cons.prems[rule_format, of 0] kr have p: "passes_probes r (rand i)" by simp
  from p obtain v1 h2 where c1: "r Undefined (Obj (length h)) (h @ [init_action]) = (Inr v1, h2)"
      and d1: "v1 \<noteq> Undefined"
    unfolding passes_probes_def returns_defined_for_def using get_type_init by blast
  from p obtain v2 h4 where
      c2: "r Undefined (Obj (length h2)) (h2 @ [probe_action (rand i)]) = (Inr v2, h4)"
      and d2: "v2 \<noteq> Undefined"
    unfolding passes_probes_def returns_defined_for_def using get_type_probe by blast
  have "\<forall>j < length pre. passes_probes (snd (pre ! j)) (rand (Suc i + j))"
  proof (intro allI impI)
    fix j assume "j < length pre"
    with Cons.prems[rule_format, of "Suc j"]
    show "passes_probes (snd (pre ! j)) (rand (Suc i + j))" by simp
  qed
  from Cons.IH[OF this, of h4] obtain h' where
    "assertReducerShape (pre @ rest) rand (Suc i) h4 =
       assertReducerShape rest rand (Suc i + length pre) h'" by blast
  then show ?case using kr c1 d1 c2 d2 by (auto simp: alloc_def)
qed

lemma assertReducerShape_initialization:
  assumes "returns_undefined_for r ActionTypes_INIT"
  shows "\<exists>h'. assertReducerShape ((key, r) # rest) rand i h =
           (Some (Error (msg_initialization key)), h')"
proof -
  from assms obtain h2 where "r Undefined (Obj (length h)) (h @ [init_action]) = (Inr Undefined, h2)"
    unfolding returns_undefined_for_def using get_type_init by blast
  then show ?thesis by (simp add: alloc_def)
qed

lemma assertReducerShape_probe:
  assumes "returns_defined_for r ActionTypes_INIT"
      and "returns_undefined_for r (probe_type (rand i))"
  shows "\<exists>h'. assertReducerShape ((key, r) # rest) rand i h = (Some (Error (msg_probe key)), h')"
proof -
  from assms(1) obtain v1 h2 where c1: "r Undefined (Obj (length h)) (h @ [init_action]) = (Inr v1, h2)"
      and d1: "v1 \<noteq> Undefined"
    unfolding returns_defined_for_def using get_type_init by blast
  from assms(2) obtain h4 where
    "r Undefined (Obj (length h2)) (h2 @ [probe_action (rand i)]) = (Inr Undefined, h4)"
    unfolding returns_undefined_for_def using get_type_probe by blast
  with c1 d1 show ?thesis by (simp add: alloc_def)
qed

lemma combination_throws_captured:
  "shapeAssertionError c = Some e \<Longrightarrow> thrown_truthy e \<Longrightarrow> fst (combination c state action h) = Inl e"
  by (simp add: combination_def split: prod.splits)

text \<open>
  C5.  Let \<open>(key, r)\<close> be the first of the functions passed to \<open>combineReducers\<close> (in
  the order of the keys) that does not pass the shape probes, every function before it
  returning defined values for both probes.  If \<open>r\<close> returns \<open>undefined\<close> for the
  private action, \<open>combineReducers\<close> returns normally, the closure it returns has
  captured the error \<open>Reducer "key" returned undefined during initialization...\<close>, and
  every invocation of the combined reducer, the first included, throws that error.  If
  \<open>r\<close> returns a defined value for the private action and \<open>undefined\<close> for the action
  of the random type drawn for it, the same holds with the error \<open>Reducer "key"
  returned undefined when probed with a random type...\<close>.  If every function passes
  both probes, no error is captured, and the combined reducer goes on to its
  sub-reducers.  Whatever the functions do, \<open>combineReducers\<close> called with an
  object returns normally, and every truthy value it has captured (an exception of a
  sub-reducer is captured as well) is thrown by every invocation of the combined
  reducer.
\<close>

theorem shape_error_deferred:
  "(cleaned rs = pre @ (key, r) # post \<and>
    (\<forall>j < length pre. passes_probes (snd (pre ! j)) (rand j)) \<and>
    returns_undefined_for r ActionTypes_INIT \<longrightarrow>
      (\<exists>c h'. combineReducers (Reducers rs) rand h = (Inr c, h') \<and>
         finalReducers c = cleaned rs \<and>
         shapeAssertionError c = Some (Error (msg_initialization key)) \<and>
         (\<forall>state action h1.
            fst (combination c state action h1) = Inl (Error (msg_initialization key))))) \<and>
   (cleaned rs = pre @ (key, r) # post \<and>
    (\<forall>j < length pre. passes_probes (snd (pre ! j)) (rand j)) \<and>
    returns_defined_for r ActionTypes_INIT \<and>
    returns_undefined_for r (probe_type (rand (length pre))) \<longrightarrow>
      (\<exists>c h'. combineReducers (Reducers rs) rand h = (Inr c, h') \<and>
         finalReducers c = cleaned rs \<and>
         shapeAssertionError c = Some (Error (msg_probe key)) \<and>
         (\<forall>state action h1.
            fst (combination c state action h1) = Inl (Error (msg_probe key))))) \<and>
   ((\<forall>j < length (cleaned rs). passes_probes (snd (cleaned rs ! j)) (rand j)) \<longrightarrow>
      (\<exists>c h'. combineReducers (Reducers rs) rand h = (Inr c, h') \<and>
         finalReducers c = cleaned rs \<and>
         shapeAssertionError c = None \<and>
         (\<forall>state action h1. state \<noteq> Undefined \<longrightarrow>
            combination c state action h1 = combine_slices c state action h1))) \<and>
   (\<exists>c h'. combineReducers (Reducers rs) rand h = (Inr c, h') \<and>
      finalReducers c = cleaned rs \<and>
      (\<forall>e. shapeAssertionError c = Some e \<and> thrown_truthy e \<longrightarrow>
         (\<forall>state action h1. fst (combination c state action h1) = Inl e)))"
proof (intro conjI impI)
  assume a: "cleaned rs = pre @ (key, r) # post \<and>
    (\<forall>j < length pre. passes_probes (snd (pre ! j)) (rand j)) \<and>
    returns_undefined_for r ActionTypes_INIT"
  from a have "\<forall>j < length pre. passes_probes (snd (pre ! j)) (rand (0 + j))" by simp
  from assertReducerShape_passing[OF this, of "(key, r) # post" h]
  obtain h1 where "assertReducerShape (cleaned rs) rand 0 h =
      assertReducerShape ((key, r) # post) rand (length pre) h1"
    using a by auto
  moreover from assertReducerShape_initialization[of r key post rand "length pre" h1] a
  obtain h' where "assertReducerShape ((key, r) # post) rand (length pre) h1 =
      (Some (Error (msg_initialization key)), h')" by blast
  ultimately have "assertReducerShape (cleaned rs) rand 0 h =
      (Some (Error (msg_initialization key)), h')" by simp
  then show "\<exists>c h'. combineReducers (Reducers rs) rand h = (Inr c, h') \<and>
         finalReducers c = cleaned rs \<and>
         shapeAssertionError c = Some (Error (msg_initialization key)) \<and>
         (\<forall>state action h1.
            fst (combination c state action h1) = Inl (Error (msg_initialization key)))"
    by (simp add: combineReducers_def Let_def combination_throws_captured)
next
  assume a: "cleaned rs = pre @ (key, r) # post \<and>
    (\<forall>j < length pre. passes_probes (snd (pre ! j)) (rand j)) \<and>
    returns_defined_for r ActionTypes_INIT \<and>
    returns_undefined_for r (probe_type (rand (length pre)))"
  from a have "\<forall>j < length pre. passes_probes (snd (pre ! j)) (rand (0 + j))" by simp
  from assertReducerShape_passing[OF this, of "(key, r) # post" h]
  obtain h1 where "assertReducerShape (cleaned rs) rand 0 h =
      assertReducerShape ((key, r) # post) rand (length pre) h1"
    using a by auto
  moreover from assertReducerShape_probe[of r rand "length pre" key post h1] a
  obtain h' where "assertReducerShape ((key, r) # post) rand (length pre) h1 =
      (Some (Error (msg_probe key)), h')" by blast
  ultimately have "assertReducerShape (cleaned rs) rand 0 h =
      (Some (Error (msg_probe key)), h')" by simp
  then show "\<exists>c h'. combineReducers (Reducers rs) rand h = (Inr c, h') \<and>
         finalReducers c = cleaned rs \<and>
         shapeAssertionError c = Some (Error (msg_probe key)) \<and>
         (\<forall>state action h1.
            fst (combination c state action h1) = Inl (Error (msg_probe key)))"
    by (simp add: combineReducers_def Let_def combination_throws_captured)
next
  assume "\<forall>j < length (cleaned rs). passes_probes (snd (cleaned rs ! j)) (rand j)"
  then have "\<forall>j < length (cleaned rs). passes_probes (snd (cleaned rs ! j)) (rand (0 + j))"
    by simp
  from assertReducerShape_passing[OF this, of "[]" h]
  obtain h' where "assertReducerShape (cleaned rs) rand 0 h = (None, h')" by auto
  then show "\<exists>c h'. combineReducers (Reducers rs) rand h = (Inr c, h') \<and>
         finalReducers c = cleaned rs \<and>
         shapeAssertionError c = None \<and>
         (\<forall>state action h1. state \<noteq> Undefined \<longrightarrow>
            combination c state action h1 = combine_slices c state action h1)"
    by (simp add: combineReducers_def Let_def combination_def)
next
  show "\<exists>c h'. combineReducers (Reducers rs) rand h = (Inr c, h') \<and>
      finalReducers c = cleaned rs \<and>
      (\<forall>e. shapeAssertionError c = Some e \<and> thrown_truthy e \<longrightarrow>
         (\<forall>state action h1. fst (combination c state action h1) = Inl e))"
    by (simp add: combineReducers_def Let_def combination_throws_captured split: prod.splits)
qed

text \<open>
  \<open>inc_reducer\<close> and \<open>keep_reducer\<close> pass both probes.  \<open>bad_reducer\<close> returns its
  state as it is, so \<open>undefined\<close> for the private action; \<open>private_reducer\<close> answers
  the private action only, so it fails the random probe.  A property that is no
  function (\<open>skipped\<close>) is not probed.
\<close>

theorem shape_error_deferred_witness:
  "cleaned [(''a'', Reducer inc_reducer), (''skipped'', Other Null), (''bad'', Reducer bad_reducer),
            (''b'', Reducer keep_reducer)] =
     [(''a'', inc_reducer)] @ (''bad'', bad_reducer) # [(''b'', keep_reducer)] \<and>
   passes_probes inc_reducer ''x0'' \<and>
   returns_undefined_for bad_reducer ActionTypes_INIT \<and>
   (\<exists>c h'. combineReducers (Reducers [(''a'', Reducer inc_reducer), (''skipped'', Other Null),
                (''bad'', Reducer bad_reducer), (''b'', Reducer keep_reducer)])
                (\<lambda>i. ''x'' @ digit_string i) [] = (Inr c, h') \<and>
      shapeAssertionError c = Some (Error (msg_initialization ''bad'')) \<and>
      fst (combination c (Obj 2) (Obj 0) example_heap) = Inl (Error (msg_initialization ''bad''))) \<and>
   cleaned [(''a'', Reducer inc_reducer), (''p'', Reducer private_reducer)] =
     [(''a'', inc_reducer)] @ (''p'', private_reducer) # [] \<and>
   returns_defined_for private_reducer ActionTypes_INIT \<and>
   returns_undefined_for private_reducer (probe_type ''x1'') \<and>
   (\<exists>c h'. combineReducers (Reducers [(''a'', Reducer inc_reducer), (''p'', Reducer private_reducer)])
                (\<lambda>i. ''x'' @ digit_string i) [] = (Inr c, h') \<and>
      shapeAssertionError c = Some (Error (msg_probe ''p'')) \<and>
      fst (combination c (Obj 2) (Obj 0) example_heap) = Inl (Error (msg_probe ''p''))) \<and>
   cleaned [(''a'', Reducer inc_reducer), (''b'', Reducer keep_reducer)] =
     [(''a'', inc_reducer), (''b'', keep_reducer)] \<and>
   passes_probes keep_reducer ''x1'' \<and>
   (\<exists>c h'. combineReducers (Reducers [(''a'', Reducer inc_reducer), (''b'', Reducer keep_reducer)])
                (\<lambda>i. ''x'' @ digit_string i) [] = (Inr c, h') \<and>
      shapeAssertionError c = None \<and>
      fst (combination c (Obj 2) (Obj 0) example_heap) = Inr (Obj 3))"
proof -
  let ?rand = "\<lambda>i. ''x'' @ digit_string i"
  let ?rs1 = "[(''a'', Reducer inc_reducer), (''skipped'', Other Null), (''bad'', Reducer bad_reducer),
            (''b'', Reducer keep_reducer)]"
  let ?rs2 = "[(''a'', Reducer inc_reducer), (''p'', Reducer private_reducer)]"
  let ?rs3 = "[(''a'', Reducer inc_reducer), (''b'', Reducer keep_reducer)]"
  have ch: "char_of (48::nat) = CHR ''0''" "char_of (49::nat) = CHR ''1''" by code_simp+
  have c1: "cleaned ?rs1 = [(''a'', inc_reducer)] @ (''bad'', bad_reducer) # [(''b'', keep_reducer)]"
    by (simp add: cleaned_def List.map_filter_def)
  have c2: "cleaned ?rs2 = [(''a'', inc_reducer)] @ (''p'', private_reducer) # []"
    by (simp add: cleaned_def List.map_filter_def)
  have c3: "cleaned ?rs3 = [(''a'', inc_reducer), (''b'', keep_reducer)]"
    by (simp add: cleaned_def List.map_filter_def)
  have pa: "passes_probes inc_reducer ''x0''"
    by (simp add: passes_probes_def returns_defined_for_def inc_reducer_def counter_def Let_def)
  have pb: "passes_probes keep_reducer ''x1''"
    by (simp add: passes_probes_def returns_defined_for_def keep_reducer_def)
  have bad: "returns_undefined_for bad_reducer ActionTypes_INIT"
    by (simp add: returns_undefined_for_def bad_reducer_def)
  have pd: "returns_defined_for private_reducer ActionTypes_INIT"
    by (simp add: returns_defined_for_def private_reducer_def)
  have pu: "returns_undefined_for private_reducer (probe_type ''x1'')"
    by (simp add: returns_undefined_for_def private_reducer_def probe_type_def ActionTypes_INIT_def)
  have pre: "\<forall>j < length [(''a'', inc_reducer)]. passes_probes (snd ([(''a'', inc_reducer)] ! j)) (?rand j)"
    using pa by (simp add: ch)
  have all3: "\<forall>j < length (cleaned ?rs3). passes_probes (snd (cleaned ?rs3 ! j)) (?rand j)"
    unfolding c3 using pa pb by (simp add: less_Suc_eq ch)
  have pu': "returns_undefined_for private_reducer (probe_type (?rand (length [(''a'', inc_reducer)])))"
    using pu by (simp add: ch)
  from shape_error_deferred[of ?rs1 "[(''a'', inc_reducer)]" "''bad''" bad_reducer
      "[(''b'', keep_reducer)]" ?rand "[]"] c1 pre bad
  have 1: "\<exists>c h'. combineReducers (Reducers ?rs1) ?rand [] = (Inr c, h') \<and>
      shapeAssertionError c = Some (Error (msg_initialization ''bad'')) \<and>
      fst (combination c (Obj 2) (Obj 0) example_heap) = Inl (Error (msg_initialization ''bad''))"
    by blast
  from shape_error_deferred[of ?rs2 "[(''a'', inc_reducer)]" "''p''" private_reducer "[]" ?rand "[]"]
    c2 pre pd pu'
  have 2: "\<exists>c h'. combineReducers (Reducers ?rs2) ?rand [] = (Inr c, h') \<and>
      shapeAssertionError c = Some (Error (msg_probe ''p'')) \<and>
      fst (combination c (Obj 2) (Obj 0) example_heap) = Inl (Error (msg_probe ''p''))"
    by blast
  from shape_error_deferred[of ?rs3 "[]" "''a''" inc_reducer "[(''b'', keep_reducer)]" ?rand "[]"] all3
  have "\<exists>c h'. combineReducers (Reducers ?rs3) ?rand [] = (Inr c, h') \<and>
      finalReducers c = cleaned ?rs3 \<and> shapeAssertionError c = None \<and>
      combination c (Obj 2) (Obj 0) example_heap = combine_slices c (Obj 2) (Obj 0) example_heap"
    by blast
  then obtain c h' where 3: "combineReducers (Reducers ?rs3) ?rand [] = (Inr c, h')"
      "finalReducers c = cleaned ?rs3" "shapeAssertionError c = None"
      "combination c (Obj 2) (Obj 0) example_heap = combine_slices c (Obj 2) (Obj 0) example_heap"
    by blast
  have "fst (combine_slices c (Obj 2) (Obj 0) example_heap) = Inr (Obj 3)"
    unfolding combine_slices_def 3(2) c3 by code_simp
  with 3 have 4: "\<exists>c h'. combineReducers (Reducers ?rs3) ?rand [] = (Inr c, h') \<and>
      shapeAssertionError c = None \<and>
      fst (combination c (Obj 2) (Obj 0) example_heap) = Inr (Obj 3)"
    by auto
  from c1 pa bad 1 c2 pd pu 2 c3 pb 4 show ?thesis by blast
qed


section \<open>Properties of connectAdvanced\<close>




text \<open>
  The events of a notification, by container: a container's own events come first and
  everything after them belongs to the containers nested in it.
\<close>

lemma notification_events:
  shows "\<And>c' e evs. onStateChange state c = (c', e, evs) \<Longrightarrow>
           \<exists>below. evs = SelectorRun (cname c) #
               (if sel_shouldComponentUpdate (runComponentSelector (source c) state (ownProps c) (cell c))
                then [Render (cname c)] else []) @ below \<and>
             (\<forall>ev \<in> set below. event_name ev \<in> \<Union> (names ` set (nested c)))"
    and "\<And>c' e evs. setState state c = (c', e, evs) \<Longrightarrow>
           \<exists>below. evs = (if sel_shouldComponentUpdate (cell c) then [Render (cname c)] else []) @ below \<and>
             (\<forall>ev \<in> set below. event_name ev \<in> \<Union> (names ` set (nested c)))"
    and "\<And>c' e evs. notifyNestedSubsOnComponentDidUpdate state c = (c', e, evs) \<Longrightarrow>
           (\<forall>ev \<in> set evs. event_name ev \<in> \<Union> (names ` set (nested c)))"
    and "\<And>cs' e evs. notifyNestedSubs state cs = (cs', e, evs) \<Longrightarrow>
           (\<forall>ev \<in> set evs. event_name ev \<in> \<Union> (names ` set cs))"
proof (induction state c and state c and state c and state cs
    rule: onStateChange_setState_notifyNestedSubsOnComponentDidUpdate_notifyNestedSubs.induct)
  case (1 state i f p sel du cs)
  then show ?case
    by (auto simp: Let_def split: if_splits prod.splits)
next
  case (2 state i f p sel du cs)
  then show ?case
    by (auto simp: Let_def render_def split: if_splits prod.splits sum.splits option.splits)
next
  case (3 state i f p sel du cs)
  then show ?case
    by (auto split: prod.splits)
next
  case (4 state)
  then show ?case by simp
next
  case (5 state c cs)
  obtain c1 e1 evs1 where o: "onStateChange state c = (c1, e1, evs1)"
    by (cases "onStateChange state c")
  from "5.IH"(1)[OF o] have own: "\<forall>ev \<in> set evs1. event_name ev \<in> names c"
    by (cases c) (fastforce split: if_splits)
  show ?case
  proof (cases e1)
    case (Some err)
    with "5.prems" o own show ?thesis by auto
  next
    case None
    obtain cs2 e2 evs2 where n: "notifyNestedSubs state cs = (cs2, e2, evs2)"
      by (cases "notifyNestedSubs state cs")
    from "5.IH"(2)[OF o[symmetric] _ _ n] None
    have "\<forall>ev \<in> set evs2. event_name ev \<in> \<Union> (names ` set cs)" by simp
    with "5.prems" o own None n show ?thesis by auto
  qed
qed

text \<open>
  C8.  When a notification reaches a container, the events it causes start with the
  container's own selector run, followed by its render if the selector asked for an
  update; every event after these belongs to a container nested in it.  So the
  container's handler, and the host's recomputation when there is one, are complete
  before the nested subscriptions are notified, and no nested container recomputes
  before.
\<close>

theorem parent_before_nested:
  assumes "onStateChange state c = (c', e, evs)"
  shows "\<exists>below. evs = SelectorRun (cname c) #
               (if sel_shouldComponentUpdate (runComponentSelector (source c) state (ownProps c) (cell c))
                then [Render (cname c)] else []) @ below \<and>
             (\<forall>ev \<in> set below. event_name ev \<in> \<Union> (names ` set (nested c)))"
  using notification_events(1)[OF assms] .

text \<open>
  The parent selects the state, which changed from \<open>0\<close> to \<open>1\<close>: it runs its
  selector and renders, and only then the nested container runs its selector.
\<close>

theorem parent_before_nested_witness:
  "snd (onStateChange (Number 1) example_parent) = (None, [SelectorRun 0, Render 0, SelectorRun 1]) \<and>
   sel_shouldComponentUpdate (runComponentSelector (source example_parent) (Number 1)
     (ownProps example_parent) (cell example_parent)) \<and>
   (\<exists>below. [SelectorRun 0, Render 0, SelectorRun 1] = SelectorRun 0 # [Render 0] @ below \<and>
      event_name ` set below \<subseteq> {1})"
proof -
  have ev: "snd (onStateChange (Number 1) example_parent) =
      (None, [SelectorRun 0, Render 0, SelectorRun 1])" by code_simp
  have ch: "sel_shouldComponentUpdate (runComponentSelector (source example_parent) (Number 1)
     (ownProps example_parent) (cell example_parent))" by code_simp
  have "onStateChange (Number 1) example_parent =
      (fst (onStateChange (Number 1) example_parent), None, [SelectorRun 0, Render 0, SelectorRun 1])"
    using ev by (metis prod.collapse)
  from parent_before_nested[OF this] ch
  obtain below where b: "[SelectorRun 0, Render 0, SelectorRun 1] =
      SelectorRun (cname example_parent) # [Render (cname example_parent)] @ below"
     "\<forall>ev \<in> set below. event_name ev \<in> \<Union> (names ` set (nested example_parent))"
    by auto
  have "\<Union> (names ` set (nested example_parent)) = {1}"
    by (simp add: example_parent_def example_child_def)
  with b have "[SelectorRun 0, Render 0, SelectorRun 1] = SelectorRun 0 # [Render 0] @ below \<and>
      event_name ` set below \<subseteq> {1}"
    by (auto simp: example_parent_def)
  with ev ch show ?thesis by blast
qed


section \<open>Properties of compose\<close>

text \<open>
  C6.  \<open>compose()\<close> is the identity on a single argument, \<open>compose(f)\<close> is \<open>f\<close>, and
  \<open>compose(f, g)(x)\<close> is \<open>f(g(x))\<close>: \<open>g\<close> runs first, an exception of \<open>g\<close> propagates
  without \<open>f\<close> being called, and otherwise the result is that of \<open>f\<close> on \<open>g\<close>'s value.
\<close>

theorem compose_spec:
  "compose [] [x] = Inr x \<and>
   compose [f] = f \<and>
   compose [f, g] [x] = (case g [x] of Inl e \<Rightarrow> Inl e | Inr y \<Rightarrow> f [y])"
  by (simp add: identity_fn_def compose2_def)

end
